theory Spec2Isabelle
  imports Main "HOL-Library.AList" "HOL-Library.Multiset"
begin

section \<open>The in-memory store of server/storage.ts\<close>

text \<open>
  \<^verbatim>\<open>MemStorage\<close> keeps four JavaScript \<^verbatim>\<open>Map<number, T>\<close> objects and four counters.
  A JavaScript Map iterates in insertion order, \<^verbatim>\<open>set\<close> on a present key replaces the
  value in place, \<^verbatim>\<open>set\<close> on a new key appends, and \<^verbatim>\<open>delete\<close> says whether the key was
  there. The model is an association list in insertion order.

  Numbers are modelled as \<open>int\<close>: ids, sizes in bytes and times in milliseconds are
  integers far below \<open>2^53\<close>, where the doubles of JavaScript are exact.
  A field that may be \<^verbatim>\<open>null\<close> or \<^verbatim>\<open>undefined\<close> is an \<open>option\<close>, \<open>None\<close> standing for both.
  Every \<^verbatim>\<open>new Date()\<close> of one operation is the argument \<open>now\<close>.
\<close>

type_synonym 'v jsmap = "(int \<times> 'v) list"

definition map_get :: "'v jsmap \<Rightarrow> int \<Rightarrow> 'v option" where
  "map_get m k = map_of m k"

definition map_has :: "'v jsmap \<Rightarrow> int \<Rightarrow> bool" where
  "map_has m k = (map_of m k \<noteq> None)"

definition map_set :: "'v jsmap \<Rightarrow> int \<Rightarrow> 'v \<Rightarrow> 'v jsmap" where
  "map_set m k v = AList.update k v m"

definition map_delete :: "'v jsmap \<Rightarrow> int \<Rightarrow> 'v jsmap" where
  "map_delete m k = AList.delete k m"

definition map_values :: "'v jsmap \<Rightarrow> 'v list" where
  "map_values m = map snd m"

definition map_keys :: "'v jsmap \<Rightarrow> int list" where
  "map_keys m = map fst m"

subsection \<open>Entities (shared/schema.ts)\<close>

record User =
  user_id :: int
  user_username :: string
  user_password :: string
  user_name :: "string option"
  user_avatar :: "string option"
  user_storageLimit :: int
  user_storageUsed :: int
  user_createdAt :: int

record Folder =
  folder_id :: int
  folder_name :: string
  folder_userId :: int
  folder_parentId :: "int option"
  folder_inTrash :: "bool option"
  folder_deletedAt :: "int option"
  folder_starred :: "bool option"
  folder_isShared :: "bool option"
  folder_createdAt :: "int option"
  folder_modifiedAt :: "int option"

record File =
  file_id :: int
  file_name :: string
  file_type :: string
  file_size :: int
  file_userId :: int
  file_folderId :: "int option"
  file_path :: string
  file_starred :: "bool option"
  file_isShared :: "bool option"
  file_inTrash :: "bool option"
  file_deletedAt :: "int option"
  file_lastAccessedAt :: "int option"
  file_createdAt :: "int option"
  file_modifiedAt :: "int option"

record Share =
  share_id :: int
  share_fileId :: "int option"
  share_folderId :: "int option"
  share_userId :: int
  share_accessType :: string
  share_allowDownload :: "bool option"
  share_expiryDate :: "int option"
  share_token :: string
  share_createdAt :: "int option"

text \<open>The insert types: what the \<^verbatim>\<open>create*\<close> calls receive.\<close>

record insertUser =
  iu_username :: string
  iu_password :: string
  iu_name :: "string option"
  iu_avatar :: "string option"

record insertFolder =
  ifo_name :: string
  ifo_userId :: int
  ifo_parentId :: "int option"

record insertFile =
  ifi_name :: string
  ifi_type :: string
  ifi_size :: int
  ifi_userId :: int
  ifi_folderId :: "int option"
  ifi_path :: string

record insertShare =
  ish_fileId :: "int option"
  ish_folderId :: "int option"
  ish_userId :: int
  ish_accessType :: string
  ish_allowDownload :: "bool option"
  ish_expiryDate :: "int option"

text \<open>
  \<^verbatim>\<open>Partial<T>\<close>: every field of the entity may be given or left out. A field that is
  left out is \<open>None\<close>; a given field carries a value of the field's own type.
\<close>

record userPatch =
  pu_id :: "int option"
  pu_username :: "string option"
  pu_password :: "string option"
  pu_name :: "string option option"
  pu_avatar :: "string option option"
  pu_storageLimit :: "int option"
  pu_storageUsed :: "int option"
  pu_createdAt :: "int option"

record folderPatch =
  pfo_id :: "int option"
  pfo_name :: "string option"
  pfo_userId :: "int option"
  pfo_parentId :: "int option option"
  pfo_inTrash :: "bool option option"
  pfo_deletedAt :: "int option option"
  pfo_starred :: "bool option option"
  pfo_isShared :: "bool option option"
  pfo_createdAt :: "int option option"
  pfo_modifiedAt :: "int option option"

record filePatch =
  pfi_id :: "int option"
  pfi_name :: "string option"
  pfi_type :: "string option"
  pfi_size :: "int option"
  pfi_userId :: "int option"
  pfi_folderId :: "int option option"
  pfi_path :: "string option"
  pfi_starred :: "bool option option"
  pfi_isShared :: "bool option option"
  pfi_inTrash :: "bool option option"
  pfi_deletedAt :: "int option option"
  pfi_lastAccessedAt :: "int option option"
  pfi_createdAt :: "int option option"
  pfi_modifiedAt :: "int option option"

text \<open>One field of the object spread \<^verbatim>\<open>{ ...old, ...data }\<close>.\<close>

fun spread :: "'a \<Rightarrow> 'a option \<Rightarrow> 'a" where
  "spread old None = old"
| "spread old (Some v) = v"

definition spread_user :: "User \<Rightarrow> userPatch \<Rightarrow> User" where
  "spread_user u d =
     \<lparr> user_id = spread (user_id u) (pu_id d),
       user_username = spread (user_username u) (pu_username d),
       user_password = spread (user_password u) (pu_password d),
       user_name = spread (user_name u) (pu_name d),
       user_avatar = spread (user_avatar u) (pu_avatar d),
       user_storageLimit = spread (user_storageLimit u) (pu_storageLimit d),
       user_storageUsed = spread (user_storageUsed u) (pu_storageUsed d),
       user_createdAt = spread (user_createdAt u) (pu_createdAt d) \<rparr>"

definition spread_folder :: "Folder \<Rightarrow> folderPatch \<Rightarrow> Folder" where
  "spread_folder f d =
     \<lparr> folder_id = spread (folder_id f) (pfo_id d),
       folder_name = spread (folder_name f) (pfo_name d),
       folder_userId = spread (folder_userId f) (pfo_userId d),
       folder_parentId = spread (folder_parentId f) (pfo_parentId d),
       folder_inTrash = spread (folder_inTrash f) (pfo_inTrash d),
       folder_deletedAt = spread (folder_deletedAt f) (pfo_deletedAt d),
       folder_starred = spread (folder_starred f) (pfo_starred d),
       folder_isShared = spread (folder_isShared f) (pfo_isShared d),
       folder_createdAt = spread (folder_createdAt f) (pfo_createdAt d),
       folder_modifiedAt = spread (folder_modifiedAt f) (pfo_modifiedAt d) \<rparr>"

definition spread_file :: "File \<Rightarrow> filePatch \<Rightarrow> File" where
  "spread_file f d =
     \<lparr> file_id = spread (file_id f) (pfi_id d),
       file_name = spread (file_name f) (pfi_name d),
       file_type = spread (file_type f) (pfi_type d),
       file_size = spread (file_size f) (pfi_size d),
       file_userId = spread (file_userId f) (pfi_userId d),
       file_folderId = spread (file_folderId f) (pfi_folderId d),
       file_path = spread (file_path f) (pfi_path d),
       file_starred = spread (file_starred f) (pfi_starred d),
       file_isShared = spread (file_isShared f) (pfi_isShared d),
       file_inTrash = spread (file_inTrash f) (pfi_inTrash d),
       file_deletedAt = spread (file_deletedAt f) (pfi_deletedAt d),
       file_lastAccessedAt = spread (file_lastAccessedAt f) (pfi_lastAccessedAt d),
       file_createdAt = spread (file_createdAt f) (pfi_createdAt d),
       file_modifiedAt = spread (file_modifiedAt f) (pfi_modifiedAt d) \<rparr>"

subsection \<open>The store and its constructor\<close>

record store =
  users :: "User jsmap"
  folders :: "Folder jsmap"
  files :: "File jsmap"
  shares :: "Share jsmap"
  currentUserId :: int
  currentFolderId :: int
  currentFileId :: int
  currentShareId :: int

definition demoUser :: "int \<Rightarrow> User" where
  "demoUser now =
     \<lparr> user_id = 1,
       user_username = ''demo@example.com'',
       user_password = ''password-hash.salt'',
       user_name = Some ''Demo User'',
       user_avatar = Some ''https://images.unsplash.com/photo-1472099645785-5658abf4ff4e?ixlib=rb-1.2.1&ixid=eyJhcHBfaWQiOjEyMDd9&auto=format&fit=facearea&facepad=2&w=256&h=256&q=80'',
       user_storageLimit = 15 * 1024 * 1024 * 1024,
       user_storageUsed = 0,
       user_createdAt = now \<rparr>"

definition MemStorage :: "int \<Rightarrow> store" where
  "MemStorage now =
     \<lparr> users = map_set [] 1 (demoUser now),
       folders = [],
       files = [],
       shares = [],
       currentUserId = 1,
       currentFolderId = 1,
       currentFileId = 1,
       currentShareId = 1 \<rparr>"

subsection \<open>User operations\<close>

definition getUser :: "store \<Rightarrow> int \<Rightarrow> User option" where
  "getUser s i = map_get (users s) i"

definition createUser :: "store \<Rightarrow> int \<Rightarrow> insertUser \<Rightarrow> User \<times> store" where
  "createUser s now insertUser =
     (let i = currentUserId s;
          s1 = s\<lparr>currentUserId := currentUserId s + 1\<rparr>;
          u = \<lparr> user_id = i,
                user_username = iu_username insertUser,
                user_password = iu_password insertUser,
                user_name = iu_name insertUser,
                user_avatar = iu_avatar insertUser,
                user_storageLimit = 15 * 1024 * 1024 * 1024,
                user_storageUsed = 0,
                user_createdAt = now \<rparr>
      in (u, s1\<lparr>users := map_set (users s1) i u\<rparr>))"

definition updateUser :: "store \<Rightarrow> int \<Rightarrow> userPatch \<Rightarrow> User option \<times> store" where
  "updateUser s i d =
     (case map_get (users s) i of
        None \<Rightarrow> (None, s)
      | Some u \<Rightarrow>
          (let updatedUser = spread_user u d
           in (Some updatedUser, s\<lparr>users := map_set (users s) i updatedUser\<rparr>)))"

text \<open>
  \<^verbatim>\<open>updateUserStorageUsed\<close> adds the delta to the stored user and floors the result
  at 0.
\<close>

definition updateUserStorageUsed :: "store \<Rightarrow> int \<Rightarrow> int \<Rightarrow> User option \<times> store" where
  "updateUserStorageUsed s userId sizeDelta =
     (case map_get (users s) userId of
        None \<Rightarrow> (None, s)
      | Some u \<Rightarrow>
          (let used = user_storageUsed u + sizeDelta;
               u1 = u\<lparr>user_storageUsed := (if used < 0 then 0 else used)\<rparr>
           in (Some u1, s\<lparr>users := map_set (users s) userId u1\<rparr>)))"

subsection \<open>Folder operations\<close>

text \<open>
  \<^verbatim>\<open>createFolder\<close> spreads the insert record and adds \<^verbatim>\<open>id\<close> and \<^verbatim>\<open>createdAt\<close>; the other
  fields of the stored object stay undefined.
\<close>

definition createFolder :: "store \<Rightarrow> int \<Rightarrow> insertFolder \<Rightarrow> Folder \<times> store" where
  "createFolder s now folder =
     (let i = currentFolderId s;
          s1 = s\<lparr>currentFolderId := currentFolderId s + 1\<rparr>;
          newFolder = \<lparr> folder_id = i,
                        folder_name = ifo_name folder,
                        folder_userId = ifo_userId folder,
                        folder_parentId = ifo_parentId folder,
                        folder_inTrash = None,
                        folder_deletedAt = None,
                        folder_starred = None,
                        folder_isShared = None,
                        folder_createdAt = Some now,
                        folder_modifiedAt = None \<rparr>
      in (newFolder, s1\<lparr>folders := map_set (folders s1) i newFolder\<rparr>))"





definition updateFolder :: "store \<Rightarrow> int \<Rightarrow> folderPatch \<Rightarrow> Folder option \<times> store" where
  "updateFolder s i d =
     (case map_get (folders s) i of
        None \<Rightarrow> (None, s)
      | Some folder \<Rightarrow>
          (let updatedFolder = spread_folder folder d
           in (Some updatedFolder, s\<lparr>folders := map_set (folders s) i updatedFolder\<rparr>)))"

subsection \<open>File operations\<close>

text \<open>
  \<^verbatim>\<open>createFile\<close> adds the size to the owner's \<^verbatim>\<open>storageUsed\<close> on the stored object
  itself, so the entry under \<^verbatim>\<open>file.userId\<close> changes, and then stores that object under
  \<^verbatim>\<open>user.id\<close>. Both writes are in the model. No floor is applied here.

  The maps hold their records by value. That is what the JavaScript does as long as
  no user object sits under two keys, and only this second write could put one
  there, when a stored user's \<^verbatim>\<open>id\<close> differs from its key.
\<close>

definition createFile :: "store \<Rightarrow> int \<Rightarrow> insertFile \<Rightarrow> File \<times> store" where
  "createFile s now file =
     (let i = currentFileId s;
          s1 = s\<lparr>currentFileId := currentFileId s + 1\<rparr>;
          newFile = \<lparr> file_id = i,
                      file_name = ifi_name file,
                      file_type = ifi_type file,
                      file_size = ifi_size file,
                      file_userId = ifi_userId file,
                      file_folderId = ifi_folderId file,
                      file_path = ifi_path file,
                      file_starred = Some False,
                      file_isShared = None,
                      file_inTrash = None,
                      file_deletedAt = None,
                      file_lastAccessedAt = None,
                      file_createdAt = Some now,
                      file_modifiedAt = Some now \<rparr>;
          s2 = s1\<lparr>files := map_set (files s1) i newFile\<rparr>
      in (case map_get (users s2) (ifi_userId file) of
            None \<Rightarrow> (newFile, s2)
          | Some u \<Rightarrow>
              (let u1 = u\<lparr>user_storageUsed := user_storageUsed u + ifi_size file\<rparr>
               in (newFile,
                   s2\<lparr>users := map_set (map_set (users s2) (ifi_userId file) u1)
                                  (user_id u1) u1\<rparr>))))"

definition getFile :: "store \<Rightarrow> int \<Rightarrow> File option" where
  "getFile s i = map_get (files s) i"

definition updateFile :: "store \<Rightarrow> int \<Rightarrow> int \<Rightarrow> filePatch \<Rightarrow> File option \<times> store" where
  "updateFile s now i d =
     (case map_get (files s) i of
        None \<Rightarrow> (None, s)
      | Some file \<Rightarrow>
          (let s1 = (case pfi_size d of
                       None \<Rightarrow> s
                     | Some sz \<Rightarrow>
                         if sz \<noteq> file_size file
                         then snd (updateUserStorageUsed s (file_userId file) (sz - file_size file))
                         else s);
               updatedFile = (spread_file file d)\<lparr>file_modifiedAt := Some now\<rparr>
           in (Some updatedFile, s1\<lparr>files := map_set (files s1) i updatedFile\<rparr>)))"

text \<open>The loop \<^verbatim>\<open>for (const share of fileShares) this.shares.delete(share.id)\<close>.\<close>

fun deleteShares :: "Share jsmap \<Rightarrow> Share list \<Rightarrow> Share jsmap" where
  "deleteShares m [] = m"
| "deleteShares m (sh # shs) = deleteShares (map_delete m (share_id sh)) shs"

definition deleteFile :: "store \<Rightarrow> int \<Rightarrow> bool \<times> store" where
  "deleteFile s i =
     (case map_get (files s) i of
        None \<Rightarrow> (False, s)
      | Some file \<Rightarrow>
          (let s1 = snd (updateUserStorageUsed s (file_userId file) (- file_size file));
               fileShares = filter (\<lambda>sh. share_fileId sh = Some i) (map_values (shares s1));
               s2 = s1\<lparr>shares := deleteShares (shares s1) fileShares\<rparr>
           in (map_has (files s2) i, s2\<lparr>files := map_delete (files s2) i\<rparr>)))"

subsection \<open>Recursive folder deletion\<close>

text \<open>The loop \<^verbatim>\<open>for (const file of folderFiles) await this.deleteFile(file.id)\<close>.\<close>

fun deleteFiles :: "store \<Rightarrow> File list \<Rightarrow> store" where
  "deleteFiles s [] = s"
| "deleteFiles s (file # rest) = deleteFiles (snd (deleteFile s (file_id file))) rest"

text \<open>
  \<^verbatim>\<open>deleteFolder\<close> calls itself for every subfolder and nothing in it looks for a cycle,
  so the call need not return. The first argument bounds the depth of nested calls
  still allowed; \<open>None\<close> says that the bound was reached, so a call that never returns
  is \<open>None\<close> for every bound.
\<close>

fun deleteFolder :: "nat \<Rightarrow> store \<Rightarrow> int \<Rightarrow> (bool \<times> store) option"
  and deleteSubfolders :: "nat \<Rightarrow> store \<Rightarrow> Folder list \<Rightarrow> store option" where
  "deleteFolder 0 s i = None"
| "deleteFolder (Suc n) s i =
     (let folderFiles = filter (\<lambda>file. file_folderId file = Some i) (map_values (files s));
          s1 = deleteFiles s folderFiles;
          subfolders = filter (\<lambda>folder. folder_parentId folder = Some i)
                         (map_values (folders s1))
      in (case deleteSubfolders n s1 subfolders of
            None \<Rightarrow> None
          | Some s2 \<Rightarrow> Some (map_has (folders s2) i,
                             s2\<lparr>folders := map_delete (folders s2) i\<rparr>)))"
| "deleteSubfolders n s [] = Some s"
| "deleteSubfolders n s (subfolder # rest) =
     (case deleteFolder n s (folder_id subfolder) of
        None \<Rightarrow> None
      | Some (b, s1) \<Rightarrow> deleteSubfolders n s1 rest)"

subsection \<open>Share operations\<close>

text \<open>The token is \<^verbatim>\<open>randomBytes(16).toString('hex')\<close>; the model takes it as an argument.\<close>

definition createShare :: "store \<Rightarrow> int \<Rightarrow> string \<Rightarrow> insertShare \<Rightarrow> Share \<times> store" where
  "createShare s now token share =
     (let i = currentShareId s;
          s1 = s\<lparr>currentShareId := currentShareId s + 1\<rparr>;
          newShare = \<lparr> share_id = i,
                       share_fileId = ish_fileId share,
                       share_folderId = ish_folderId share,
                       share_userId = ish_userId share,
                       share_accessType = ish_accessType share,
                       share_allowDownload = ish_allowDownload share,
                       share_expiryDate = ish_expiryDate share,
                       share_token = token,
                       share_createdAt = Some now \<rparr>
      in (newShare, s1\<lparr>shares := map_set (shares s1) i newShare\<rparr>))"

record SharedBy =
  sb_name :: string
  sb_avatar :: string

record ShareWithDetails =
  swd_share :: Share
  swd_file :: "File option"
  swd_folder :: "Folder option"
  swd_sharedBy :: "SharedBy option"

text \<open>JavaScript truthiness of a nullable number and of a nullable string.\<close>

fun truthy_number :: "int option \<Rightarrow> bool" where
  "truthy_number None = False"
| "truthy_number (Some n) = (n \<noteq> 0)"

fun truthy_string :: "string option \<Rightarrow> bool" where
  "truthy_string None = False"
| "truthy_string (Some t) = (t \<noteq> [])"

fun truthy_bool :: "bool option \<Rightarrow> bool" where
  "truthy_bool None = False"
| "truthy_bool (Some b) = b"

text \<open>\<^verbatim>\<open>a || b\<close> on a nullable string: the empty string is falsy too.\<close>

fun string_or :: "string option \<Rightarrow> string \<Rightarrow> string" where
  "string_or None d = d"
| "string_or (Some t) d = (if t = [] then d else t)"

text \<open>\<^verbatim>\<open>id ? map.get(id) : undefined\<close>: an id of 0 is falsy and resolves to nothing.\<close>

fun resolve :: "'v jsmap \<Rightarrow> int option \<Rightarrow> 'v option" where
  "resolve m None = None"
| "resolve m (Some i) = (if i \<noteq> 0 then map_get m i else None)"

definition shareDetails :: "store \<Rightarrow> Share \<Rightarrow> ShareWithDetails" where
  "shareDetails s share =
     \<lparr> swd_share = share,
       swd_file = resolve (files s) (share_fileId share),
       swd_folder = resolve (folders s) (share_folderId share),
       swd_sharedBy =
         (case map_get (users s) (share_userId share) of
            None \<Rightarrow> None
          | Some u \<Rightarrow>
              Some \<lparr> sb_name = string_or (user_name u) (user_username u),
                     sb_avatar = string_or (user_avatar u) [] \<rparr>) \<rparr>"

definition getShareByToken :: "store \<Rightarrow> string \<Rightarrow> ShareWithDetails option" where
  "getShareByToken s token =
     (case find (\<lambda>sh. share_token sh = token) (map_values (shares s)) of
        None \<Rightarrow> None
      | Some share \<Rightarrow> Some (shareDetails s share))"

definition getSharesByUserId :: "store \<Rightarrow> int \<Rightarrow> ShareWithDetails list" where
  "getSharesByUserId s userId =
     map (shareDetails s) (filter (\<lambda>sh. share_userId sh = userId) (map_values (shares s)))"

definition deleteShare :: "store \<Rightarrow> int \<Rightarrow> bool \<times> store" where
  "deleteShare s i = (map_has (shares s) i, s\<lparr>shares := map_delete (shares s) i\<rparr>)"

subsection \<open>Recent files\<close>

text \<open>
  The template string \<^verbatim>\<open>`/api/files/${file.id}/download`\<close> prints the id in decimal.
\<close>

fun digits :: "nat \<Rightarrow> string" where
  "digits n = (if n < 10 then [char_of (48 + n)]
               else digits (n div 10) @ [char_of (48 + n mod 10)])"

definition number_toString :: "int \<Rightarrow> string" where
  "number_toString i = (if i < 0 then CHR ''-'' # digits (nat (- i)) else digits (nat i))"

definition downloadUrl :: "File \<Rightarrow> string" where
  "downloadUrl file = ''/api/files/'' @ number_toString (file_id file) @ ''/download''"

record FileWithPath =
  fwp_file :: File
  url :: "string option"

definition withPath :: "File \<Rightarrow> FileWithPath" where
  "withPath file = \<lparr> fwp_file = file, url = Some (downloadUrl file) \<rparr>"

text \<open>
  \<^verbatim>\<open>Array.prototype.sort(cmp)\<close> is a stable sort: an element goes before the first
  element that the comparator does not place before it. Insertion from the right
  end keeps equal elements in their order.
\<close>

fun insert_sorted :: "('a \<Rightarrow> 'a \<Rightarrow> int) \<Rightarrow> 'a \<Rightarrow> 'a list \<Rightarrow> 'a list" where
  "insert_sorted cmp x [] = [x]"
| "insert_sorted cmp x (y # ys) =
     (if cmp x y \<le> 0 then x # y # ys else y # insert_sorted cmp x ys)"

definition array_sort :: "('a \<Rightarrow> 'a \<Rightarrow> int) \<Rightarrow> 'a list \<Rightarrow> 'a list" where
  "array_sort cmp xs = foldr (insert_sorted cmp) xs []"

text \<open>
  \<^verbatim>\<open>thirtyDaysAgo.setDate(thirtyDaysAgo.getDate() - 30)\<close> works on the local calendar of
  the host. By the definition of \<^verbatim>\<open>setDate\<close> in ECMAScript the time value \<open>t\<close> becomes
  \<^verbatim>\<open>UTC(MakeDate(MakeDay(year, month, date - 30), TimeWithinDay(LocalTime(t))))\<close>, with
  \<^verbatim>\<open>LocalTime(t) = t + LocalTZA(t, true)\<close> and \<^verbatim>\<open>UTC(t) = t - LocalTZA(t, false)\<close>; the day
  30 dates earlier at the same time within the day is 30 times \<^verbatim>\<open>msPerDay\<close> earlier
  in local time. \<open>LocalTZA\<close>, the offset of the host's time zone (at a UTC time when
  its second argument is true, at a local time otherwise), is an argument.
\<close>

definition msPerDay :: int where
  "msPerDay = 24 * 60 * 60 * 1000"

definition thirtyDaysAgo :: "(int \<Rightarrow> bool \<Rightarrow> int) \<Rightarrow> int \<Rightarrow> int" where
  "thirtyDaysAgo LocalTZA now =
     (let t = now + LocalTZA now True;
          newDate = t - 30 * msPerDay
      in newDate - LocalTZA newDate False)"

definition getTime :: "int option \<Rightarrow> int" where
  "getTime d = (case d of None \<Rightarrow> 0 | Some t \<Rightarrow> t)"

definition isRecent :: "int \<Rightarrow> int \<Rightarrow> File \<Rightarrow> bool" where
  "isRecent cutoff userId file =
     (file_userId file = userId \<and>
      (case file_lastAccessedAt file of
         None \<Rightarrow> False
       | Some t \<Rightarrow> t \<ge> cutoff) \<and>
      \<not> truthy_bool (file_inTrash file))"

definition getRecentFiles ::
    "(int \<Rightarrow> bool \<Rightarrow> int) \<Rightarrow> store \<Rightarrow> int \<Rightarrow> int \<Rightarrow> FileWithPath list" where
  "getRecentFiles LocalTZA s now userId =
     map withPath
       (array_sort
          (\<lambda>a b. getTime (file_lastAccessedAt b) - getTime (file_lastAccessedAt a))
          (filter (isRecent (thirtyDaysAgo LocalTZA now) userId) (map_values (files s))))"

section \<open>The route layer\<close>

text \<open>
  A handler takes the store, the clock, the id of the logged-in user (\<open>None\<close> when
  \<^verbatim>\<open>req.isAuthenticated()\<close> is false) and the request body, and gives the response and
  the new store. The middlewares \<^verbatim>\<open>requireAuth\<close> and \<^verbatim>\<open>validateRequest\<close> run before the
  handler, in this order.
\<close>

datatype body =
    Message string
  | FolderBody Folder
  | ShareBody Share
  | ShareDetailsBody ShareWithDetails

type_synonym response = "nat \<times> body"

text \<open>
  A value of a JSON body. \<open>JOther\<close> stands for the values that no field of these
  requests accepts: a number with a fraction, an array, an object.
\<close>

datatype json = JNull | JBoolean bool | JNumber int | JString string | JOther





text \<open>\<^verbatim>\<open>parentId || null\<close>.\<close>

definition or_null :: "int option \<Rightarrow> int option" where
  "or_null p = (if truthy_number p then p else None)"



text \<open>
  \<^verbatim>\<open>POST /api/shares\<close> has no schema check. The client sends \<^verbatim>\<open>fileId\<close> and \<^verbatim>\<open>folderId\<close>
  as numbers or leaves them out, and \<^verbatim>\<open>parseInt\<close> of an integer is that integer; the
  expiry date is the time that \<^verbatim>\<open>new Date(expiryDate)\<close> denotes.
\<close>

record shareRequest =
  rq_fileId :: "int option"
  rq_folderId :: "int option"
  rq_accessType :: "string option"
  rq_allowDownload :: "bool option"
  rq_expiryDate :: "int option"

definition post_api_shares ::
    "store \<Rightarrow> int \<Rightarrow> string \<Rightarrow> int option \<Rightarrow> shareRequest \<Rightarrow> response \<times> store" where
  "post_api_shares s now token auth rq =
     (case auth of
        None \<Rightarrow> ((401, Message ''Unauthorized''), s)
      | Some userId \<Rightarrow>
          (let fileId = rq_fileId rq; folderId = rq_folderId rq
           in if (\<not> truthy_number fileId \<and> \<not> truthy_number folderId)
                 \<or> (truthy_number fileId \<and> truthy_number folderId)
              then ((400, Message ''Must specify either fileId or folderId''), s)
              else if truthy_number fileId
                      \<and> (case resolve (files s) fileId of
                            None \<Rightarrow> True
                          | Some file \<Rightarrow> file_userId file \<noteq> userId)
              then ((403, Message ''Unauthorized to share this file''), s)
              else if truthy_number folderId
                      \<and> (case resolve (folders s) folderId of
                            None \<Rightarrow> True
                          | Some folder \<Rightarrow> folder_userId folder \<noteq> userId)
              then ((403, Message ''Unauthorized to share this folder''), s)
              else (let (share, s1) =
                          createShare s now token
                            \<lparr> ish_fileId = or_null fileId,
                              ish_folderId = or_null folderId,
                              ish_userId = userId,
                              ish_accessType = string_or (rq_accessType rq) ''public'',
                              ish_allowDownload =
                                (case rq_allowDownload rq of
                                   None \<Rightarrow> Some True
                                 | Some b \<Rightarrow> Some b),
                              ish_expiryDate = or_null (rq_expiryDate rq) \<rparr>
                    in ((201, ShareBody share), s1))))"

text \<open>\<^verbatim>\<open>GET /api/shares/:token\<close> is public: it has no \<^verbatim>\<open>requireAuth\<close>.\<close>

definition get_api_shares_token :: "store \<Rightarrow> int \<Rightarrow> string \<Rightarrow> response" where
  "get_api_shares_token s now token =
     (case getShareByToken s token of
        None \<Rightarrow> (404, Message ''Share not found'')
      | Some share \<Rightarrow>
          (case share_expiryDate (swd_share share) of
             Some e \<Rightarrow>
               if e < now then (403, Message ''Share has expired'')
               else (200, ShareDetailsBody share)
           | None \<Rightarrow> (200, ShareDetailsBody share)))"

section \<open>The parent relation of the folders\<close>

text \<open>
  The edges \<open>(id, parentId)\<close> of all stored folders that have a parent. The folders
  form a forest when this relation has no cycle.
\<close>

definition parentEdges :: "store \<Rightarrow> (int \<times> int) list" where
  "parentEdges s =
     map (\<lambda>folder. (folder_id folder, the (folder_parentId folder)))
       (filter (\<lambda>folder. folder_parentId folder \<noteq> None) (map_values (folders s)))"

text \<open>
  Every stored folder and file carries its own key as \<open>id\<close>, and a Map has each key
  once. The \<open>create*\<close> operations store every record under its \<open>id\<close>.
\<close>

definition idsAreKeys :: "store \<Rightarrow> bool" where
  "idsAreKeys s =
     (distinct (map_keys (folders s)) \<and> list_all (\<lambda>(k, folder). folder_id folder = k) (folders s)
      \<and> distinct (map_keys (files s)) \<and> list_all (\<lambda>(k, file). file_id file = k) (files s))"

text \<open>Folder \<open>c\<close> is folder \<open>i\<close> or lies below it, at any depth.\<close>

definition liesIn :: "store \<Rightarrow> int \<Rightarrow> int \<Rightarrow> bool" where
  "liesIn s i c = ((c, i) \<in> (set (parentEdges s))\<^sup>*)"

text \<open>A map without the entries of some keys, and the folders at or below a folder.\<close>

definition without :: "int set \<Rightarrow> 'v jsmap \<Rightarrow> 'v jsmap" where
  "without K m = filter (\<lambda>(k, v). k \<notin> K) m"

definition below :: "store \<Rightarrow> int \<Rightarrow> int set" where
  "below s i = {c. liesIn s i c}"

text \<open>The file map without the files that lie in one of some folders.\<close>

definition withoutIn :: "int set \<Rightarrow> File jsmap \<Rightarrow> File jsmap" where
  "withoutIn K m =
     filter (\<lambda>(k, file). case file_folderId file of None \<Rightarrow> True | Some p \<Rightarrow> p \<notin> K) m"

text \<open>The second store is the first without some folders and without the files in them.\<close>

definition removed :: "store \<Rightarrow> int set \<Rightarrow> store \<Rightarrow> bool" where
  "removed s K s' = (folders s' = without K (folders s) \<and> files s' = withoutIn K (files s))"

section \<open>Notions used in the statements about folder creation\<close>




section \<open>Sequences of operations\<close>

text \<open>
  The state of the store after a list of operations. Every operation of the store
  that writes appears with arbitrary arguments, except \<open>createShare\<close>, whose only
  caller is the handler of \<^verbatim>\<open>POST /api/shares\<close>: shares are created through that
  handler. A \<open>deleteFolder\<close> that does not return within its depth bound ends the
  sequence with \<open>None\<close>.
\<close>

datatype command =
    CreateUser int insertUser
  | UpdateUser int userPatch
  | CreateFolder int insertFolder
  | UpdateFolder int folderPatch
  | DeleteFolder nat int
  | CreateFile int insertFile
  | UpdateFile int int filePatch
  | DeleteFile int
  | PostShare int string "int option" shareRequest
  | DeleteShare int

fun exec :: "store \<Rightarrow> command \<Rightarrow> store option" where
  "exec s (CreateUser now u) = Some (snd (createUser s now u))"
| "exec s (UpdateUser i d) = Some (snd (updateUser s i d))"
| "exec s (CreateFolder now f) = Some (snd (createFolder s now f))"
| "exec s (UpdateFolder i d) = Some (snd (updateFolder s i d))"
| "exec s (DeleteFolder n i) = map_option snd (deleteFolder n s i)"
| "exec s (CreateFile now f) = Some (snd (createFile s now f))"
| "exec s (UpdateFile now i d) = Some (snd (updateFile s now i d))"
| "exec s (DeleteFile i) = Some (snd (deleteFile s i))"
| "exec s (PostShare now token auth rq) = Some (snd (post_api_shares s now token auth rq))"
| "exec s (DeleteShare i) = Some (snd (deleteShare s i))"

fun run :: "store \<Rightarrow> command list \<Rightarrow> store option" where
  "run s [] = Some s"
| "run s (c # cs) = (case exec s c of None \<Rightarrow> None | Some s1 \<Rightarrow> run s1 cs)"

text \<open>A share points to exactly one target: a file or a folder, not both, not neither.\<close>

definition oneTarget :: "Share \<Rightarrow> bool" where
  "oneTarget sh = ((share_fileId sh = None) \<noteq> (share_folderId sh = None))"

definition badRequest :: response where
  "badRequest = (400, Message ''Must specify either fileId or folderId'')"

section \<open>Notions used in the statements about storage accounting\<close>

text \<open>
  The sum of the sizes of the stored files of a user, and the user's \<open>storageUsed\<close>
  (\<open>None\<close> when there is no such user).
\<close>

definition ownedSizes :: "store \<Rightarrow> int \<Rightarrow> int" where
  "ownedSizes s u =
     sum_list (map file_size (filter (\<lambda>file. file_userId file = u) (map_values (files s))))"

definition storageUsedOf :: "store \<Rightarrow> int \<Rightarrow> int option" where
  "storageUsedOf s u = map_option user_storageUsed (map_get (users s) u)"

text \<open>
  What holds of the file map in every state of the running program: a Map has each
  key once, and every key was issued by the file counter, so it lies below it.
\<close>

definition filesWellFormed :: "store \<Rightarrow> bool" where
  "filesWellFormed s =
     (distinct (map_keys (files s)) \<and> list_all (\<lambda>k. k < currentFileId s) (map_keys (files s)))"

definition sizesNonNegative :: "store \<Rightarrow> int \<Rightarrow> bool" where
  "sizesNonNegative s u =
     list_all (\<lambda>file. file_userId file = u \<longrightarrow> 0 \<le> file_size file) (map_values (files s))"

text \<open>
  The operations of the accounting property: a \<open>createFile\<close> for the user with a size
  that is not negative, or any \<open>deleteFile\<close>.
\<close>

fun fileOpFor :: "int \<Rightarrow> command \<Rightarrow> bool" where
  "fileOpFor u (CreateFile now f) = (ifi_userId f = u \<and> 0 \<le> ifi_size f)"
| "fileOpFor u (DeleteFile i) = True"
| "fileOpFor u _ = False"

definition accounted :: "store \<Rightarrow> int \<Rightarrow> bool" where
  "accounted s u =
     (filesWellFormed s \<and> sizesNonNegative s u \<and> storageUsedOf s u = Some (ownedSizes s u))"

text \<open>What a file contributes to the sum of the user.\<close>

definition owned :: "int \<Rightarrow> File \<Rightarrow> int" where
  "owned u file = (if file_userId file = u then file_size file else 0)"

section \<open>Example states\<close>

text \<open>
  A store built by the operations themselves: the demo user owns folder 1 (\<open>Docs\<close>)
  in the root and folder 2 (\<open>Sub\<close>) inside it, file 1 of 1000 bytes lies in folder 2,
  share 1 points to the file and expires at time 1500, share 2 points to folder 2.
\<close>

definition emptyUserPatch :: userPatch where
  "emptyUserPatch =
     \<lparr> pu_id = None, pu_username = None, pu_password = None, pu_name = None,
       pu_avatar = None, pu_storageLimit = None, pu_storageUsed = None,
       pu_createdAt = None \<rparr>"

definition emptyFolderPatch :: folderPatch where
  "emptyFolderPatch =
     \<lparr> pfo_id = None, pfo_name = None, pfo_userId = None, pfo_parentId = None,
       pfo_inTrash = None, pfo_deletedAt = None, pfo_starred = None, pfo_isShared = None,
       pfo_createdAt = None, pfo_modifiedAt = None \<rparr>"

definition emptyFilePatch :: filePatch where
  "emptyFilePatch =
     \<lparr> pfi_id = None, pfi_name = None, pfi_type = None, pfi_size = None,
       pfi_userId = None, pfi_folderId = None, pfi_path = None, pfi_starred = None,
       pfi_isShared = None, pfi_inTrash = None, pfi_deletedAt = None,
       pfi_lastAccessedAt = None, pfi_createdAt = None, pfi_modifiedAt = None \<rparr>"

definition newcomer :: insertUser where
  "newcomer = \<lparr> iu_username = ''ann@example.com'', iu_password = ''hash.salt'',
                iu_name = Some ''Ann'', iu_avatar = None \<rparr>"

definition pdf :: insertFile where
  "pdf = \<lparr> ifi_name = ''a.pdf'', ifi_type = ''application/pdf'', ifi_size = 1000,
           ifi_userId = 1, ifi_folderId = Some 2, ifi_path = ''uploads/user_1/a.pdf'' \<rparr>"

definition store0 :: store where
  "store0 = MemStorage 1000"

definition store1 :: store where
  "store1 = snd (createFolder store0 1001
                   \<lparr> ifo_name = ''Docs'', ifo_userId = 1, ifo_parentId = None \<rparr>)"

definition store2 :: store where
  "store2 = snd (createFolder store1 1002
                   \<lparr> ifo_name = ''Sub'', ifo_userId = 1, ifo_parentId = Some 1 \<rparr>)"

definition store3 :: store where
  "store3 = snd (createFile store2 1003 pdf)"

definition store4 :: store where
  "store4 = snd (createShare store3 1004 ''0123456789abcdef0123456789abcdef''
                   \<lparr> ish_fileId = Some 1, ish_folderId = None, ish_userId = 1,
                     ish_accessType = ''public'', ish_allowDownload = Some True,
                     ish_expiryDate = Some 1500 \<rparr>)"

definition store5 :: store where
  "store5 = snd (createShare store4 1005 ''fedcba9876543210fedcba9876543210''
                   \<lparr> ish_fileId = None, ish_folderId = Some 2, ish_userId = 1,
                     ish_accessType = ''public'', ish_allowDownload = Some True,
                     ish_expiryDate = None \<rparr>)"

definition expiredShare :: Share where
  "expiredShare =
     \<lparr> share_id = 1, share_fileId = Some 1, share_folderId = None, share_userId = 1,
       share_accessType = ''public'', share_allowDownload = Some True,
       share_expiryDate = Some 1500, share_token = ''0123456789abcdef0123456789abcdef'',
       share_createdAt = Some 1004 \<rparr>"

text \<open>
  Two hosts: one on UTC, and one in New York around the clock change of 10 March
  2024, when the offset went from 5 to 4 hours at 07:00 UTC; a local time in the
  hour that was skipped is read with the offset before the change.
\<close>

definition utc :: "int \<Rightarrow> bool \<Rightarrow> int" where
  "utc t isUTC = 0"

definition newYork2024 :: "int \<Rightarrow> bool \<Rightarrow> int" where
  "newYork2024 t isUTC =
     (if isUTC then (if t < 1710054000000 then - 18000000 else - 14400000)
      else (if t < 1710039600000 then - 18000000 else - 14400000))"

text \<open>
  Four files of the demo user. File 1 was last opened on 19 February 2024 at
  16:26:40 UTC, file 2 on 9 March, file 4 on 20 March at 13:06:40 UTC; file 3 was
  opened on 20 March too but lies in the trash. The calls of the examples are made
  on 20 March 2024 at 16:00 UTC, time 1710950400000, and on 9 March at the time
  1710000000000.
\<close>

definition touched :: "int \<Rightarrow> filePatch" where
  "touched t = emptyFilePatch\<lparr>pfi_lastAccessedAt := Some (Some t)\<rparr>"

definition winterStore :: store where
  "winterStore =
     (let s1 = snd (createFile store2 1708000000000 pdf);
          s2 = snd (createFile s1 1708000001000 (pdf\<lparr>ifi_name := ''b.pdf''\<rparr>));
          s3 = snd (createFile s2 1708000002000 (pdf\<lparr>ifi_name := ''c.pdf''\<rparr>));
          s4 = snd (createFile s3 1708000003000 (pdf\<lparr>ifi_name := ''d.pdf''\<rparr>));
          s5 = snd (updateFile s4 1708360000000 1 (touched 1708360000000));
          s6 = snd (updateFile s5 1710000000000 2 (touched 1710000000000));
          s7 = snd (updateFile s6 1710900000000 3
                      ((touched 1710900000000)\<lparr>pfi_inTrash := Some (Some True)\<rparr>))
      in snd (updateFile s7 1710940000000 4 (touched 1710940000000)))"

text \<open>File 1 and folder 1 of the example store, and two patches that rename them.\<close>

definition storedFile :: File where
  "storedFile =
     \<lparr> file_id = 1, file_name = ''a.pdf'', file_type = ''application/pdf'', file_size = 1000,
       file_userId = 1, file_folderId = Some 2, file_path = ''uploads/user_1/a.pdf'',
       file_starred = Some False, file_isShared = None, file_inTrash = None,
       file_deletedAt = None, file_lastAccessedAt = None, file_createdAt = Some 1003,
       file_modifiedAt = Some 1003 \<rparr>"

definition storedFolder :: Folder where
  "storedFolder =
     \<lparr> folder_id = 1, folder_name = ''Docs'', folder_userId = 1, folder_parentId = None,
       folder_inTrash = None, folder_deletedAt = None, folder_starred = None,
       folder_isShared = None, folder_createdAt = Some 1001, folder_modifiedAt = None \<rparr>"

definition renameFile :: filePatch where
  "renameFile = emptyFilePatch\<lparr>pfi_name := Some ''b.pdf''\<rparr>"

definition renameFolder :: folderPatch where
  "renameFolder = emptyFolderPatch\<lparr>pfo_name := Some ''Papers''\<rparr>"






text \<open>
  Share requests with both targets and with a file only, and a list of operations
  on a fresh store that creates two folders and a file, shares the file, sends the
  request with both targets, shares folder 2 and then deletes folder 2.
\<close>

definition bothTargets :: shareRequest where
  "bothTargets = \<lparr> rq_fileId = Some 1, rq_folderId = Some 2, rq_accessType = None,
                   rq_allowDownload = None, rq_expiryDate = None \<rparr>"

definition fileTarget :: shareRequest where
  "fileTarget = bothTargets\<lparr>rq_folderId := None\<rparr>"

definition session :: "command list" where
  "session =
     [CreateFolder 1001 \<lparr> ifo_name = ''Docs'', ifo_userId = 1, ifo_parentId = None \<rparr>,
      CreateFolder 1002 \<lparr> ifo_name = ''Sub'', ifo_userId = 1, ifo_parentId = Some 1 \<rparr>,
      CreateFile 1003 pdf,
      PostShare 1004 ''0123456789abcdef0123456789abcdef'' (Some 1) fileTarget,
      PostShare 1005 ''fedcba9876543210fedcba9876543210'' (Some 1) bothTargets,
      PostShare 1006 ''00112233445566778899aabbccddeeff'' (Some 1)
        (bothTargets\<lparr>rq_fileId := None\<rparr>),
      DeleteFolder 2 2]"

text \<open>A second upload of the demo user and a list of file operations.\<close>

definition textFile :: insertFile where
  "textFile = \<lparr> ifi_name = ''notes.txt'', ifi_type = ''text/plain'', ifi_size = 500,
             ifi_userId = 1, ifi_folderId = None, ifi_path = ''uploads/user_1/notes.txt'' \<rparr>"

definition fileOps :: "command list" where
  "fileOps = [CreateFile 2000 textFile, DeleteFile 1, DeleteFile 9, CreateFile 2001 pdf]"

section \<open>Properties\<close>

subsection \<open>Facts about the map operations\<close>

lemma map_delete_absent: "map_get m k = None \<Longrightarrow> map_delete m k = m"
  by (simp add: map_get_def map_delete_def map_of_eq_None_iff)

lemma map_has_absent: "map_get m k = None \<Longrightarrow> \<not> map_has m k"
  by (simp add: map_get_def map_has_def)

lemma set_map_delete: "set (map_delete m k) \<subseteq> set m"
  by (auto simp: map_delete_def AList.delete_eq)

lemma map_get_map_set_same: "map_get (map_set m k v) k = Some v"
  by (simp add: map_get_def map_set_def update_conv')

lemma map_get_map_set: "map_get (map_set m k v) k' = (if k' = k then Some v else map_get m k')"
  by (simp add: map_get_def map_set_def update_conv')


lemma set_map_set: "set (map_set m k v) \<subseteq> insert (k, v) (set m)"
  by (induction m) (auto simp: map_set_def)

lemma map_set_fresh: "k \<notin> set (map_keys m) \<Longrightarrow> map_set m k v = m @ [(k, v)]"
  by (induction m) (auto simp: map_set_def map_keys_def)

lemma sum_map_delete:
  "distinct (map_keys m) \<Longrightarrow> map_get m k = Some v \<Longrightarrow>
     sum_list (map g (map_values (map_delete m k))) = sum_list (map g (map_values m)) - (g v :: int)"
proof (induction m)
  case Nil
  then show ?case by (simp add: map_get_def)
next
  case (Cons p m)
  obtain k' v' where p: "p = (k', v')" by (cases p)
  show ?case
  proof (cases "k' = k")
    case True
    with Cons.prems p have v: "v' = v" and notin: "k \<notin> fst ` set m"
      by (auto simp: map_get_def map_keys_def)
    from notin have "AList.delete k m = m" by simp
    with True p v show ?thesis
      by (simp add: map_delete_def map_values_def)
  next
    case False
    with Cons.prems p have "distinct (map_keys m)" "map_get m k = Some v"
      by (auto simp: map_get_def map_keys_def)
    from Cons.IH[OF this] False p show ?thesis
      by (simp add: map_delete_def map_values_def)
  qed
qed

lemma deleteFile_files:
  "files (snd (deleteFile s i)) = map_delete (files s) i"
  "currentFileId (snd (deleteFile s i)) = currentFileId s"
  by (simp_all add: deleteFile_def Let_def map_delete_absent updateUserStorageUsed_def
        split: option.splits)

subsection \<open>Operations on a missing id\<close>

text \<open>
  C10. When the id is not a key of the entity's map, \<open>updateUser\<close>, \<open>updateFolder\<close>
  and \<open>updateFile\<close> return undefined (\<open>None\<close>), \<open>deleteFile\<close> and \<open>deleteShare\<close> return
  false, and the store that comes back is the store that went in: all four maps,
  all counters and so every user's \<open>storageUsed\<close>.
\<close>

theorem missing_id_leaves_store_unchanged:
  "(map_get (users s) i = None \<longrightarrow> updateUser s i du = (None, s)) \<and>
   (map_get (folders s) i = None \<longrightarrow> updateFolder s i dfo = (None, s)) \<and>
   (map_get (files s) i = None \<longrightarrow>
      updateFile s now i dfi = (None, s) \<and> deleteFile s i = (False, s)) \<and>
   (map_get (shares s) i = None \<longrightarrow> deleteShare s i = (False, s))"
  by (simp add: updateUser_def updateFolder_def updateFile_def deleteFile_def deleteShare_def
        map_delete_absent map_has_absent)

theorem missing_id_leaves_store_unchanged_witness:
  "map_get (users store5) 7 = None \<and> map_get (folders store5) 7 = None \<and>
   map_get (files store5) 7 = None \<and> map_get (shares store5) 7 = None \<and>
   updateUser store5 7 emptyUserPatch = (None, store5) \<and>
   updateFolder store5 7 emptyFolderPatch = (None, store5) \<and>
   updateFile store5 2000 7 emptyFilePatch = (None, store5) \<and>
   deleteFile store5 7 = (False, store5) \<and>
   deleteShare store5 7 = (False, store5)"
proof -
  have u: "map_get (users store5) 7 = None" by code_simp
  have fo: "map_get (folders store5) 7 = None" by code_simp
  have fi: "map_get (files store5) 7 = None" by code_simp
  have sh: "map_get (shares store5) 7 = None" by code_simp
  show ?thesis
    using u fo fi sh
      missing_id_leaves_store_unchanged
        [of store5 7 emptyUserPatch emptyFolderPatch 2000 emptyFilePatch]
    by blast
qed

subsection \<open>Ids of new users\<close>

text \<open>
  C3. The constructor stores the demo user under id 1 and leaves the user counter
  at 1, so the first \<open>createUser\<close> on a fresh store returns id 1, a key the user
  map already has, and the new user replaces the demo user.
\<close>

theorem createUser_reuses_seeded_id:
  "map_has (users (MemStorage 1000)) 1 \<and>
   user_id (fst (createUser (MemStorage 1000) 2000 newcomer)) = 1 \<and>
   map_keys (users (snd (createUser (MemStorage 1000) 2000 newcomer))) = [1] \<and>
   map_get (users (snd (createUser (MemStorage 1000) 2000 newcomer))) 1
     = Some (fst (createUser (MemStorage 1000) 2000 newcomer)) \<and>
   fst (createUser (MemStorage 1000) 2000 newcomer) \<noteq> demoUser 1000"
  by (simp add: MemStorage_def createUser_def map_has_def map_get_def map_set_def
        map_keys_def Let_def demoUser_def newcomer_def)

subsection \<open>Expired shares\<close>

lemma find_distinct_key:
  "distinct (map f xs) \<Longrightarrow> x \<in> set xs \<Longrightarrow> find (\<lambda>y. f y = f x) xs = Some x"
  by (induction xs) (auto simp: rev_image_eqI)

text \<open>
  C5. \<open>getShareByToken\<close> has no clock among its arguments. For a share of the store
  whose expiry date lies before the time of the call (tokens being unique, as the
  schema declares them), it returns that share together with the file or folder it
  resolves to and the sharer's name and avatar; it is the handler of
  \<^verbatim>\<open>GET /api/shares/:token\<close> that answers 403 for it.
\<close>

theorem getShareByToken_returns_expired_share:
  assumes "share \<in> set (map_values (shares s))"
    and "distinct (map share_token (map_values (shares s)))"
    and "share_expiryDate share = Some e"
    and "e < now"
  shows "getShareByToken s (share_token share) =
           Some \<lparr> swd_share = share,
                  swd_file = resolve (files s) (share_fileId share),
                  swd_folder = resolve (folders s) (share_folderId share),
                  swd_sharedBy =
                    map_option
                      (\<lambda>u. \<lparr> sb_name = string_or (user_name u) (user_username u),
                             sb_avatar = string_or (user_avatar u) [] \<rparr>)
                      (map_get (users s) (share_userId share)) \<rparr>
         \<and> get_api_shares_token s now (share_token share)
             = (403, Message ''Share has expired'')"
proof -
  have "find (\<lambda>sh. share_token sh = share_token share) (map_values (shares s)) = Some share"
    using assms(1,2) by (rule find_distinct_key[rotated])
  then have found: "getShareByToken s (share_token share) = Some (shareDetails s share)"
    by (simp add: getShareByToken_def)
  have details: "shareDetails s share =
           \<lparr> swd_share = share,
             swd_file = resolve (files s) (share_fileId share),
             swd_folder = resolve (folders s) (share_folderId share),
             swd_sharedBy =
               map_option
                 (\<lambda>u. \<lparr> sb_name = string_or (user_name u) (user_username u),
                        sb_avatar = string_or (user_avatar u) [] \<rparr>)
                 (map_get (users s) (share_userId share)) \<rparr>"
    by (simp add: shareDetails_def split: option.splits)
  have "get_api_shares_token s now (share_token share) = (403, Message ''Share has expired'')"
    using assms(3,4) by (simp add: get_api_shares_token_def found shareDetails_def)
  with found details show ?thesis by simp
qed

theorem getShareByToken_returns_expired_share_witness:
  "expiredShare \<in> set (map_values (shares store5)) \<and>
   distinct (map share_token (map_values (shares store5))) \<and>
   share_expiryDate expiredShare = Some 1500 \<and> (1500::int) < 2000 \<and>
   map_option swd_share (getShareByToken store5 ''0123456789abcdef0123456789abcdef'')
     = Some expiredShare \<and>
   map_option swd_file (getShareByToken store5 ''0123456789abcdef0123456789abcdef'')
     = Some (map_get (files store5) 1) \<and>
   get_api_shares_token store5 2000 ''0123456789abcdef0123456789abcdef''
     = (403, Message ''Share has expired'')"
proof -
  have a: "expiredShare \<in> set (map_values (shares store5))" by code_simp
  have b: "distinct (map share_token (map_values (shares store5)))" by code_simp
  have c: "share_expiryDate expiredShare = Some 1500" by code_simp
  have d: "(1500::int) < 2000" by simp
  have t: "share_token expiredShare = ''0123456789abcdef0123456789abcdef''" by code_simp
  have f: "resolve (files store5) (share_fileId expiredShare) = map_get (files store5) 1"
    by code_simp
  show ?thesis
    using getShareByToken_returns_expired_share [OF a b c d] a b c t f by simp
qed

subsection \<open>Recursive deletion of a folder\<close>

lemma in_parentEdges:
  "(c, p) \<in> set (parentEdges s) \<longleftrightarrow>
     (\<exists>f \<in> set (map_values (folders s)). folder_id f = c \<and> folder_parentId f = Some p)"
proof
  assume "(c, p) \<in> set (parentEdges s)"
  then obtain f where "f \<in> set (map_values (folders s))" "folder_parentId f \<noteq> None"
      "c = folder_id f" "p = the (folder_parentId f)"
    by (auto simp: parentEdges_def)
  then show "\<exists>f \<in> set (map_values (folders s)). folder_id f = c \<and> folder_parentId f = Some p"
    by auto
next
  assume "\<exists>f \<in> set (map_values (folders s)). folder_id f = c \<and> folder_parentId f = Some p"
  then obtain f where f: "f \<in> set (map_values (folders s))" "folder_id f = c"
      "folder_parentId f = Some p"
    by blast
  then show "(c, p) \<in> set (parentEdges s)"
    by (auto simp: parentEdges_def intro!: image_eqI[where x = f])
qed

lemma folders_updateUserStorageUsed [simp]:
  "folders (snd (updateUserStorageUsed s u d)) = folders s"
  by (simp add: updateUserStorageUsed_def Let_def split: option.splits)

lemma folders_deleteFile [simp]: "folders (snd (deleteFile s i)) = folders s"
  by (simp add: deleteFile_def Let_def split: option.splits)

lemma folders_deleteFiles [simp]: "folders (deleteFiles s fs) = folders s"
  by (induction fs arbitrary: s) simp_all

lemma deleteFolder_fuel_mono:
  "deleteFolder n s i = Some r \<Longrightarrow> n \<le> m \<Longrightarrow> deleteFolder m s i = Some r"
  "deleteSubfolders n s fs = Some s' \<Longrightarrow> n \<le> m \<Longrightarrow> deleteSubfolders m s fs = Some s'"
proof (induction n s i and n s fs arbitrary: m r and m s' rule: deleteFolder_deleteSubfolders.induct)
  case (1 s i)
  then show ?case by simp
next
  case (2 n s i)
  define s1 where "s1 = deleteFiles s (filter (\<lambda>file. file_folderId file = Some i) (map_values (files s)))"
  define subs where "subs = filter (\<lambda>folder. folder_parentId folder = Some i) (map_values (folders s1))"
  from "2.prems"(2) obtain m' where m: "m = Suc m'" and le: "n \<le> m'"
    by (cases m) auto
  from "2.prems"(1) obtain s2 where sub: "deleteSubfolders n s1 subs = Some s2"
    and r: "r = (map_has (folders s2) i, s2\<lparr>folders := map_delete (folders s2) i\<rparr>)"
    by (simp add: Let_def s1_def subs_def split: option.splits)
  have "deleteSubfolders m' s1 subs = Some s2"
    using "2.IH" sub le unfolding s1_def subs_def by blast
  then show ?case
    unfolding m by (simp add: Let_def s1_def subs_def r)
next
  case (3 n s)
  then show ?case by simp
next
  case (4 n s subfolder rest)
  from "4.prems"(1) obtain b s1 where first: "deleteFolder n s (folder_id subfolder) = Some (b, s1)"
    and others: "deleteSubfolders n s1 rest = Some s'"
    by (simp split: option.splits prod.splits)
  have "deleteFolder m s (folder_id subfolder) = Some (b, s1)"
    using "4.IH"(1) first "4.prems"(2) by blast
  moreover have "deleteSubfolders m s1 rest = Some s'"
    using "4.IH"(2) first others "4.prems"(2) by blast
  ultimately show ?case by simp
qed

lemma deleteFolder_folders_subset:
  "deleteFolder n s i = Some (b, s') \<Longrightarrow> set (folders s') \<subseteq> set (folders s)"
  "deleteSubfolders n s fs = Some s' \<Longrightarrow> set (folders s') \<subseteq> set (folders s)"
proof (induction n s i and n s fs arbitrary: b s' and s' rule: deleteFolder_deleteSubfolders.induct)
  case (1 s i)
  then show ?case by simp
next
  case (2 n s i)
  define s1 where "s1 = deleteFiles s (filter (\<lambda>file. file_folderId file = Some i) (map_values (files s)))"
  define subs where "subs = filter (\<lambda>folder. folder_parentId folder = Some i) (map_values (folders s1))"
  from "2.prems" obtain s2 where sub: "deleteSubfolders n s1 subs = Some s2"
    and s': "s' = s2\<lparr>folders := map_delete (folders s2) i\<rparr>"
    by (simp add: Let_def s1_def subs_def split: option.splits)
  have "set (folders s2) \<subseteq> set (folders s1)"
    using "2.IH" sub unfolding s1_def subs_def by blast
  moreover have "folders s1 = folders s"
    by (simp add: s1_def)
  moreover have "set (folders s') \<subseteq> set (folders s2)"
    by (simp add: s' set_map_delete)
  ultimately show ?case by simp
next
  case (3 n s)
  then show ?case by simp
next
  case (4 n s subfolder rest)
  from "4.prems" obtain b s1 where first: "deleteFolder n s (folder_id subfolder) = Some (b, s1)"
    and others: "deleteSubfolders n s1 rest = Some s'"
    by (simp split: option.splits prod.splits)
  have "set (folders s1) \<subseteq> set (folders s)"
    using "4.IH"(1) first by blast
  moreover have "set (folders s') \<subseteq> set (folders s1)"
    using "4.IH"(2) first others by blast
  ultimately show ?case by simp
qed

lemma deleteFolder_edges_subset:
  "deleteFolder n s i = Some (b, s') \<Longrightarrow> set (parentEdges s') \<subseteq> set (parentEdges s)"
  "deleteSubfolders n s fs = Some s' \<Longrightarrow> set (parentEdges s') \<subseteq> set (parentEdges s)"
proof -
  have sub: "set (folders t') \<subseteq> set (folders t) \<Longrightarrow> set (parentEdges t') \<subseteq> set (parentEdges t)"
    for t t' :: store
  proof
    fix e assume sub: "set (folders t') \<subseteq> set (folders t)" and e: "e \<in> set (parentEdges t')"
    obtain c p where cp: "e = (c, p)" by (cases e)
    from e obtain f where "f \<in> set (map_values (folders t'))" "folder_id f = c"
        "folder_parentId f = Some p"
      unfolding cp in_parentEdges by blast
    moreover have "set (map_values (folders t')) \<subseteq> set (map_values (folders t))"
      using sub unfolding map_values_def by (simp add: image_mono)
    ultimately show "e \<in> set (parentEdges t)"
      unfolding cp in_parentEdges by blast
  qed
  show "deleteFolder n s i = Some (b, s') \<Longrightarrow> set (parentEdges s') \<subseteq> set (parentEdges s)"
    by (rule sub) (rule deleteFolder_folders_subset(1))
  show "deleteSubfolders n s fs = Some s' \<Longrightarrow> set (parentEdges s') \<subseteq> set (parentEdges s)"
    by (rule sub) (rule deleteFolder_folders_subset(2))
qed

lemma deleteSubfolders_returns:
  assumes calls: "\<And>c s. (c, i) \<in> R \<Longrightarrow> set (parentEdges s) \<subseteq> R
                   \<Longrightarrow> \<exists>n r. deleteFolder n s c = Some r"
  shows "\<forall>f \<in> set fs. (folder_id f, i) \<in> R \<Longrightarrow> set (parentEdges s) \<subseteq> R
           \<Longrightarrow> \<exists>n s'. deleteSubfolders n s fs = Some s'"
proof (induction fs arbitrary: s)
  case Nil
  then show ?case by simp
next
  case (Cons f rest)
  from calls[of "folder_id f" s] Cons.prems
  obtain n1 b s1 where first: "deleteFolder n1 s (folder_id f) = Some (b, s1)"
    by fastforce
  then have "set (parentEdges s1) \<subseteq> R"
    using deleteFolder_edges_subset(1) Cons.prems(2) by blast
  with Cons.IH Cons.prems(1)
  obtain n2 s2 where others: "deleteSubfolders n2 s1 rest = Some s2"
    by fastforce
  have "deleteFolder (max n1 n2) s (folder_id f) = Some (b, s1)"
    using first by (rule deleteFolder_fuel_mono(1)) simp
  moreover have "deleteSubfolders (max n1 n2) s1 rest = Some s2"
    using others by (rule deleteFolder_fuel_mono(2)) simp
  ultimately have "deleteSubfolders (max n1 n2) s (f # rest) = Some s2"
    by simp
  then show ?case by blast
qed

lemma deleteFolder_returns_below:
  assumes "wf R"
  shows "set (parentEdges s) \<subseteq> R \<Longrightarrow> \<exists>n r. deleteFolder n s i = Some r"
  using assms
proof (induction i arbitrary: s rule: wf_induct_rule)
  case (less i)
  define s1 where "s1 = deleteFiles s (filter (\<lambda>file. file_folderId file = Some i) (map_values (files s)))"
  define subs where "subs = filter (\<lambda>folder. folder_parentId folder = Some i) (map_values (folders s1))"
  have edges: "set (parentEdges s1) \<subseteq> R"
    using less.prems by (simp add: s1_def parentEdges_def)
  have "\<forall>f \<in> set subs. (folder_id f, i) \<in> R"
    using edges by (auto simp: subs_def in_parentEdges subset_iff)
  with deleteSubfolders_returns[of i R subs s1] less.IH edges
  obtain n s2 where "deleteSubfolders n s1 subs = Some s2"
    by blast
  then have "deleteFolder (Suc n) s i
               = Some (map_has (folders s2) i, s2\<lparr>folders := map_delete (folders s2) i\<rparr>)"
    by (simp add: s1_def subs_def Let_def)
  then show ?case by blast
qed

lemma map_delete_without: "map_delete m k = without {k} m"
  by (auto simp: map_delete_def without_def AList.delete_eq intro: filter_cong)

lemma without_without: "without K (without L m) = without (K \<union> L) m"
  by (auto simp: without_def intro: filter_cong)

lemma without_empty: "without {} m = m"
  by (simp add: without_def)

lemma files_deleteFiles: "files (deleteFiles s fs) = without (file_id ` set fs) (files s)"
proof (induction fs arbitrary: s)
  case Nil
  then show ?case by (simp add: without_empty)
next
  case (Cons f fs)
  show ?case
    by (simp add: Cons.IH deleteFile_files(1) map_delete_without without_without Un_commute)
qed

lemma edges_by_key:
  assumes "list_all (\<lambda>(k, folder). folder_id folder = k) (folders s)"
  shows "(c, p) \<in> set (parentEdges s) \<longleftrightarrow>
           (\<exists>f. (c, f) \<in> set (folders s) \<and> folder_parentId f = Some p)"
proof -
  have ids: "\<And>k f. (k, f) \<in> set (folders s) \<Longrightarrow> folder_id f = k"
    using assms by (auto simp: list_all_iff)
  show ?thesis
    unfolding in_parentEdges map_values_def
  proof
    assume "\<exists>f\<in>set (map snd (folders s)). folder_id f = c \<and> folder_parentId f = Some p"
    then obtain k f where "(k, f) \<in> set (folders s)" "folder_id f = c" "folder_parentId f = Some p"
      by auto
    with ids[of k f] show "\<exists>f. (c, f) \<in> set (folders s) \<and> folder_parentId f = Some p"
      by auto
  next
    assume "\<exists>f. (c, f) \<in> set (folders s) \<and> folder_parentId f = Some p"
    then obtain f where f: "(c, f) \<in> set (folders s)" "folder_parentId f = Some p"
      by blast
    with ids[of c f] have "f \<in> set (map snd (folders s))" "folder_id f = c"
      by (auto intro: rev_image_eqI)
    with f show "\<exists>f\<in>set (map snd (folders s)). folder_id f = c \<and> folder_parentId f = Some p"
      by blast
  qed
qed

lemma rtrancl_outside:
  assumes closed: "\<And>a b. (a, b) \<in> E \<Longrightarrow> b \<in> B \<Longrightarrow> a \<in> B"
    and path: "(x, y) \<in> E\<^sup>*" and out: "x \<notin> B"
  shows "(x, y) \<in> {(a, b). (a, b) \<in> E \<and> a \<notin> B}\<^sup>* \<and> y \<notin> B"
  using path
proof (induction rule: rtrancl_induct)
  case base
  then show ?case using out by simp
next
  case (step y z)
  then have "(y, z) \<in> {(a, b). (a, b) \<in> E \<and> a \<notin> B}" by simp
  moreover have "z \<notin> B" using closed[OF step.hyps(2)] step.IH by blast
  ultimately show ?case using step.IH by (meson rtrancl.rtrancl_into_rtrancl)
qed

lemma idsAreKeys_without:
  assumes "idsAreKeys s" and "folders s' = without K (folders s)"
    and "files s' = filter P (files s)"
  shows "idsAreKeys s'"
  using assms
  by (auto simp: idsAreKeys_def without_def map_keys_def list_all_iff distinct_map_filter)

lemma edges_without:
  assumes ids: "idsAreKeys s" and f: "folders s' = without K (folders s)"
  shows "set (parentEdges s') = {(a, b). (a, b) \<in> set (parentEdges s) \<and> a \<notin> K}"
proof -
  have l: "list_all (\<lambda>(k, folder). folder_id folder = k) (folders s)"
    using ids by (simp add: idsAreKeys_def)
  then have l': "list_all (\<lambda>(k, folder). folder_id folder = k) (folders s')"
    by (auto simp: f without_def list_all_iff)
  show ?thesis
    by (auto simp: edges_by_key[OF l] edges_by_key[OF l'] f without_def)
qed

lemma below_closed: "(a, b) \<in> set (parentEdges s) \<Longrightarrow> b \<in> below s c \<Longrightarrow> a \<in> below s c"
  by (auto simp: below_def liesIn_def intro: converse_rtrancl_into_rtrancl)

lemma below_after_removal:
  assumes ids: "idsAreKeys s" and f: "folders s' = without (below s c) (folders s)"
  shows "below s' d \<union> below s c = below s d \<union> below s c"
proof -
  let ?B = "below s c"
  have E': "set (parentEdges s') = {(a, b). (a, b) \<in> set (parentEdges s) \<and> a \<notin> ?B}"
    by (rule edges_without[OF ids f])
  have "x \<in> below s d" if "x \<in> below s' d" for x
  proof -
    have "set (parentEdges s') \<subseteq> set (parentEdges s)" using E' by auto
    from rtrancl_mono[OF this] that show ?thesis
      by (auto simp: below_def liesIn_def)
  qed
  moreover have "x \<in> below s' d" if "x \<in> below s d" "x \<notin> ?B" for x
  proof -
    from that(1) have "(x, d) \<in> (set (parentEdges s))\<^sup>*"
      by (simp add: below_def liesIn_def)
    from rtrancl_outside[of "set (parentEdges s)" ?B, OF below_closed this that(2)]
    show ?thesis
      by (simp add: below_def liesIn_def E')
  qed
  ultimately show ?thesis by blast
qed

lemma withoutIn_withoutIn: "withoutIn K (withoutIn L m) = withoutIn (K \<union> L) m"
  by (auto simp: withoutIn_def split: option.splits intro: filter_cong)

lemma withoutIn_empty: "withoutIn {} m = m"
proof -
  have "(\<lambda>(k, file). case file_folderId file of None \<Rightarrow> True | Some p \<Rightarrow> p \<notin> ({} :: int set))
          = (\<lambda>x :: int \<times> File. True)"
    by (auto split: option.splits)
  then show ?thesis by (simp add: withoutIn_def)
qed

lemma removed_ids: "idsAreKeys s \<Longrightarrow> removed s K s' \<Longrightarrow> idsAreKeys s'"
  unfolding removed_def withoutIn_def by (erule idsAreKeys_without) simp_all

lemma removed_edges: "idsAreKeys s \<Longrightarrow> removed s K s' \<Longrightarrow> set (parentEdges s') \<subseteq> set (parentEdges s)"
  using edges_without[of s s' K] by (auto simp: removed_def)

lemma deleteSubfolders_removes:
  assumes calls: "\<And>c s. (c, i) \<in> R \<Longrightarrow> set (parentEdges s) \<subseteq> R \<Longrightarrow> idsAreKeys s
                   \<Longrightarrow> \<exists>n b s'. deleteFolder n s c = Some (b, s') \<and> removed s (below s c) s'"
  shows "\<forall>f \<in> set cs. (folder_id f, i) \<in> R \<Longrightarrow> set (parentEdges t) \<subseteq> R \<Longrightarrow> idsAreKeys t
           \<Longrightarrow> \<exists>n t'. deleteSubfolders n t cs = Some t'
                   \<and> removed t (\<Union>f \<in> set cs. below t (folder_id f)) t'"
proof (induction cs arbitrary: t)
  case Nil
  then show ?case by (simp add: removed_def without_empty withoutIn_empty)
next
  case (Cons c rest)
  let ?B = "below t (folder_id c)"
  from calls[of "folder_id c" t] Cons.prems
  obtain n1 b t1 where first: "deleteFolder n1 t (folder_id c) = Some (b, t1)"
    and r1: "removed t ?B t1"
    by fastforce
  have ids1: "idsAreKeys t1" by (rule removed_ids[OF Cons.prems(3) r1])
  have "set (parentEdges t1) \<subseteq> R"
    using removed_edges[OF Cons.prems(3) r1] Cons.prems(2) by blast
  with Cons.IH[of t1] Cons.prems(1) ids1
  obtain n2 t2 where others: "deleteSubfolders n2 t1 rest = Some t2"
    and r2: "removed t1 (\<Union>f \<in> set rest. below t1 (folder_id f)) t2"
    by fastforce
  have sets: "(\<Union>f \<in> set rest. below t1 (folder_id f)) \<union> ?B
                = (\<Union>f \<in> set (c # rest). below t (folder_id f))"
  proof -
    have "below t1 d \<union> ?B = below t d \<union> ?B" for d
      using below_after_removal[OF Cons.prems(3), of t1 "folder_id c" d] r1
      by (simp add: removed_def)
    then have "(\<Union>f \<in> set rest. below t1 (folder_id f)) \<union> ?B
                 = (\<Union>f \<in> set rest. below t (folder_id f)) \<union> ?B"
      by blast
    then show ?thesis by auto
  qed
  have "removed t (\<Union>f \<in> set (c # rest). below t (folder_id f)) t2"
    using r1 r2 unfolding removed_def sets[symmetric]
    by (simp add: without_without withoutIn_withoutIn)
  moreover have "deleteFolder (max n1 n2) t (folder_id c) = Some (b, t1)"
    using first by (rule deleteFolder_fuel_mono(1)) simp
  moreover have "deleteSubfolders (max n1 n2) t1 rest = Some t2"
    using others by (rule deleteFolder_fuel_mono(2)) simp
  ultimately have "deleteSubfolders (max n1 n2) t (c # rest) = Some t2
      \<and> removed t (\<Union>f \<in> set (c # rest). below t (folder_id f)) t2"
    by simp
  then show ?case by blast
qed

lemma map_get_without: "k \<notin> K \<Longrightarrow> map_get (without K m) k = map_get m k"
  by (induction m) (auto simp: without_def map_get_def)

lemma deleteFiles_of_folder:
  assumes "idsAreKeys s"
  shows "files (deleteFiles s (filter (\<lambda>file. file_folderId file = Some i) (map_values (files s))))
           = withoutIn {i} (files s)"
proof -
  have ids: "\<And>k f. (k, f) \<in> set (files s) \<Longrightarrow> file_id f = k"
    and dist: "distinct (map fst (files s))"
    using assms by (auto simp: idsAreKeys_def list_all_iff map_keys_def)
  have "(k \<notin> file_id ` set (filter (\<lambda>file. file_folderId file = Some i) (map_values (files s))))
          = (case file_folderId f of None \<Rightarrow> True | Some p \<Rightarrow> p \<notin> {i})"
    if kf: "(k, f) \<in> set (files s)" for k f
  proof (cases "file_folderId f = Some i")
    case True
    with kf ids[OF kf] have "k \<in> file_id ` set (filter (\<lambda>file. file_folderId file = Some i)
                                                  (map_values (files s)))"
      by (force simp: map_values_def)
    with True show ?thesis by simp
  next
    case False
    have "k \<notin> file_id ` set (filter (\<lambda>file. file_folderId file = Some i) (map_values (files s)))"
    proof
      assume "k \<in> file_id ` set (filter (\<lambda>file. file_folderId file = Some i) (map_values (files s)))"
      then obtain k' f' where f': "(k', f') \<in> set (files s)" "file_folderId f' = Some i" "file_id f' = k"
        by (auto simp: map_values_def)
      with ids[OF f'(1)] have "(k, f') \<in> set (files s)" by simp
      with kf dist have "f' = f" by (meson eq_key_imp_eq_value)
      with f'(2) False show False by simp
    qed
    with False show ?thesis by (auto split: option.splits)
  qed
  then show ?thesis
    unfolding files_deleteFiles without_def withoutIn_def
    by (intro filter_cong) auto
qed

lemma below_unfold:
  "below s i = insert i (\<Union>f \<in> set (filter (\<lambda>folder. folder_parentId folder = Some i)
                                        (map_values (folders s))). below s (folder_id f))"
    (is "_ = insert i ?U")
proof (rule set_eqI)
  fix x
  let ?E = "set (parentEdges s)"
  have U: "x \<in> ?U \<longleftrightarrow> (\<exists>c. (c, i) \<in> ?E \<and> (x, c) \<in> ?E\<^sup>*)"
  proof
    assume "x \<in> ?U"
    then obtain f where "f \<in> set (map_values (folders s))" "folder_parentId f = Some i"
        "x \<in> below s (folder_id f)"
      by auto
    then have "(folder_id f, i) \<in> ?E" "(x, folder_id f) \<in> ?E\<^sup>*"
      unfolding in_parentEdges by (auto simp: below_def liesIn_def)
    then show "\<exists>c. (c, i) \<in> ?E \<and> (x, c) \<in> ?E\<^sup>*" by blast
  next
    assume "\<exists>c. (c, i) \<in> ?E \<and> (x, c) \<in> ?E\<^sup>*"
    then obtain c where c: "(c, i) \<in> ?E" "(x, c) \<in> ?E\<^sup>*" by blast
    from c(1) obtain f where "f \<in> set (map_values (folders s))" "folder_id f = c"
        "folder_parentId f = Some i"
      unfolding in_parentEdges by blast
    with c(2) show "x \<in> ?U"
      by (auto simp: below_def liesIn_def)
  qed
  show "x \<in> below s i \<longleftrightarrow> x \<in> insert i ?U"
  proof
    assume "x \<in> below s i"
    then have "(x, i) \<in> ?E\<^sup>*" by (simp add: below_def liesIn_def)
    then have "x = i \<or> (\<exists>c. (c, i) \<in> ?E \<and> (x, c) \<in> ?E\<^sup>*)"
      by (cases rule: rtrancl.cases) auto
    with U show "x \<in> insert i ?U" by blast
  next
    assume "x \<in> insert i ?U"
    with U have "x = i \<or> (\<exists>c. (c, i) \<in> ?E \<and> (x, c) \<in> ?E\<^sup>*)" by blast
    then have "(x, i) \<in> ?E\<^sup>*"
      by (auto intro: rtrancl_into_rtrancl)
    then show "x \<in> below s i" by (simp add: below_def liesIn_def)
  qed
qed

lemma deleteFolder_removes_below:
  assumes "wf R"
  shows "set (parentEdges s) \<subseteq> R \<Longrightarrow> idsAreKeys s \<Longrightarrow>
           \<exists>n s2. deleteSubfolders n
                      (deleteFiles s (filter (\<lambda>file. file_folderId file = Some i)
                                        (map_values (files s))))
                      (filter (\<lambda>folder. folder_parentId folder = Some i) (map_values (folders s)))
                      = Some s2
                  \<and> map_get (folders s2) i = map_get (folders s) i
                  \<and> deleteFolder (Suc n) s i
                      = Some (map_has (folders s) i, s2\<lparr>folders := map_delete (folders s2) i\<rparr>)
                  \<and> removed s (below s i) (s2\<lparr>folders := map_delete (folders s2) i\<rparr>)"
  using assms
proof (induction i arbitrary: s rule: wf_induct_rule)
  case (less i)
  define s1 where
    "s1 = deleteFiles s (filter (\<lambda>file. file_folderId file = Some i) (map_values (files s)))"
  define subs where
    "subs = filter (\<lambda>folder. folder_parentId folder = Some i) (map_values (folders s))"
  define U where "U = (\<Union>f \<in> set subs. below s (folder_id f))"
  have folders1: "folders s1 = folders s" by (simp add: s1_def)
  have files1: "files s1 = withoutIn {i} (files s)"
    unfolding s1_def by (rule deleteFiles_of_folder[OF less.prems(2)])
  have edges1: "parentEdges s1 = parentEdges s"
    by (simp add: parentEdges_def folders1)
  have below1: "below s1 = below s"
    by (simp add: below_def liesIn_def edges1 fun_eq_iff)
  have ids1: "idsAreKeys s1"
    using less.prems(2) folders1 files1
    by (auto simp: idsAreKeys_def withoutIn_def map_keys_def list_all_iff distinct_map_filter)
  have sub1: "set (parentEdges s1) \<subseteq> R"
    using less.prems(1) by (simp add: edges1)
  have smaller: "\<forall>f \<in> set subs. (folder_id f, i) \<in> R"
    using less.prems(1) by (auto simp: subs_def in_parentEdges subset_iff)
  have calls: "\<exists>n b s'. deleteFolder n t c = Some (b, s') \<and> removed t (below t c) s'"
    if "(c, i) \<in> R" "set (parentEdges t) \<subseteq> R" "idsAreKeys t" for c t
    using less.IH[OF that] by blast
  from deleteSubfolders_removes[of i R subs s1, OF calls smaller sub1 ids1]
  obtain n s2 where loop: "deleteSubfolders n s1 subs = Some s2"
    and r: "removed s1 U s2"
    unfolding below1 U_def by blast
  have "acyclic (set (parentEdges s))"
    using less.prems(1) wf_acyclic[OF \<open>wf R\<close>] by (meson acyclic_subset)
  have notin: "i \<notin> U"
  proof
    assume "i \<in> U"
    then obtain f where "f \<in> set (map_values (folders s))" "folder_parentId f = Some i"
        "(i, folder_id f) \<in> (set (parentEdges s))\<^sup>*"
      by (auto simp: U_def subs_def below_def liesIn_def)
    moreover from this have "(folder_id f, i) \<in> set (parentEdges s)"
      unfolding in_parentEdges by blast
    ultimately have "(i, i) \<in> (set (parentEdges s))\<^sup>+"
      by (meson rtrancl_into_trancl1)
    with \<open>acyclic (set (parentEdges s))\<close> show False
      by (simp add: acyclic_def)
  qed
  have all: "below s i = insert i U"
    unfolding U_def subs_def by (rule below_unfold)
  have same: "map_get (folders s2) i = map_get (folders s) i"
    using r notin by (simp add: removed_def folders1 map_get_without)
  let ?s' = "s2\<lparr>folders := map_delete (folders s2) i\<rparr>"
  have run: "deleteFolder (Suc n) s i = Some (map_has (folders s) i, ?s')"
    using loop same by (simp add: Let_def s1_def[symmetric] subs_def folders1 map_has_def map_get_def)
  have "removed s (below s i) ?s'"
    using r unfolding removed_def all
    by (simp add: folders1 files1 map_delete_without without_without withoutIn_withoutIn Un_commute)
  with loop same run show ?case
    unfolding s1_def subs_def by blast
qed

text \<open>
  C9. On a store whose parent relation is acyclic, \<open>deleteFolder\<close> returns for every
  folder id: some bound on the call depth is enough. When the folders and files
  carry their keys as ids, the call proceeds as follows. It first deletes the files
  lying in the folder, so that none of them is left; then the recursive deletion
  over the subfolders returns, the folder's own entry still being as it was; at
  last that entry is removed and the call reports whether it was there. The
  resulting store has the folders of the old one except the folder and all folders
  below it, and the files of the old one except those lying in one of these
  folders.
\<close>

theorem deleteFolder_terminates_depth_first:
  assumes "acyclic (set (parentEdges s))"
  shows "(\<exists>n b s'. deleteFolder n s i = Some (b, s'))
       \<and> (idsAreKeys s \<longrightarrow>
           (\<exists>n s2.
              files (deleteFiles s (filter (\<lambda>file. file_folderId file = Some i)
                                      (map_values (files s))))
                = filter (\<lambda>(k, file). file_folderId file \<noteq> Some i) (files s)
              \<and> deleteSubfolders n
                  (deleteFiles s (filter (\<lambda>file. file_folderId file = Some i)
                                    (map_values (files s))))
                  (filter (\<lambda>folder. folder_parentId folder = Some i) (map_values (folders s)))
                  = Some s2
              \<and> map_get (folders s2) i = map_get (folders s) i
              \<and> deleteFolder (Suc n) s i
                  = Some (map_has (folders s) i, s2\<lparr>folders := map_delete (folders s2) i\<rparr>)
              \<and> map_delete (folders s2) i
                  = filter (\<lambda>(k, folder). \<not> liesIn s i k) (folders s)
              \<and> files s2
                  = filter (\<lambda>(k, file). case file_folderId file of
                                           None \<Rightarrow> True
                                         | Some p \<Rightarrow> \<not> liesIn s i p)
                      (files s)))"
proof (intro conjI impI)
  have wf: "wf (set (parentEdges s))"
    using assms by (simp add: finite_acyclic_wf)
  from deleteFolder_returns_below[OF wf subset_refl, of i]
  show "\<exists>n b s'. deleteFolder n s i = Some (b, s')" by auto
  assume ids: "idsAreKeys s"
  from deleteFolder_removes_below[OF wf subset_refl ids, of i]
  obtain n s2 where loop:
      "deleteSubfolders n
         (deleteFiles s (filter (\<lambda>file. file_folderId file = Some i) (map_values (files s))))
         (filter (\<lambda>folder. folder_parentId folder = Some i) (map_values (folders s)))
         = Some s2"
    and same: "map_get (folders s2) i = map_get (folders s) i"
    and run: "deleteFolder (Suc n) s i
                = Some (map_has (folders s) i, s2\<lparr>folders := map_delete (folders s2) i\<rparr>)"
    and r: "removed s (below s i) (s2\<lparr>folders := map_delete (folders s2) i\<rparr>)"
    by blast
  have first: "files (deleteFiles s (filter (\<lambda>file. file_folderId file = Some i)
                                        (map_values (files s))))
                 = filter (\<lambda>(k, file). file_folderId file \<noteq> Some i) (files s)"
    unfolding deleteFiles_of_folder[OF ids] withoutIn_def
    by (intro filter_cong) (auto split: option.splits)
  have fo: "map_delete (folders s2) i = filter (\<lambda>(k, folder). \<not> liesIn s i k) (folders s)"
    using r by (simp add: removed_def without_def below_def)
  have fi: "files s2 = filter (\<lambda>(k, file). case file_folderId file of
                                        None \<Rightarrow> True
                                      | Some p \<Rightarrow> \<not> liesIn s i p)
                   (files s)"
  proof -
    have "files s2 = withoutIn (below s i) (files s)"
      using r by (simp add: removed_def)
    also have "\<dots> = filter (\<lambda>(k, file). case file_folderId file of
                                        None \<Rightarrow> True
                                      | Some p \<Rightarrow> \<not> liesIn s i p)
                   (files s)"
      unfolding withoutIn_def below_def
      by (intro filter_cong) (auto split: option.splits)
    finally show ?thesis .
  qed
  from first loop same run fo fi
  show "\<exists>n s2.
              files (deleteFiles s (filter (\<lambda>file. file_folderId file = Some i)
                                      (map_values (files s))))
                = filter (\<lambda>(k, file). file_folderId file \<noteq> Some i) (files s)
              \<and> deleteSubfolders n
                  (deleteFiles s (filter (\<lambda>file. file_folderId file = Some i)
                                    (map_values (files s))))
                  (filter (\<lambda>folder. folder_parentId folder = Some i) (map_values (folders s)))
                  = Some s2
              \<and> map_get (folders s2) i = map_get (folders s) i
              \<and> deleteFolder (Suc n) s i
                  = Some (map_has (folders s) i, s2\<lparr>folders := map_delete (folders s2) i\<rparr>)
              \<and> map_delete (folders s2) i
                  = filter (\<lambda>(k, folder). \<not> liesIn s i k) (folders s)
              \<and> files s2
                  = filter (\<lambda>(k, file). case file_folderId file of
                                           None \<Rightarrow> True
                                         | Some p \<Rightarrow> \<not> liesIn s i p)
                      (files s)"
    by blast
qed

theorem deleteFolder_terminates_depth_first_witness:
  "acyclic (set (parentEdges store5)) \<and> idsAreKeys store5
   \<and> liesIn store5 1 2
   \<and> (\<exists>n b s'. deleteFolder n store5 1 = Some (b, s'))
   \<and> (\<exists>n s2.
         files (deleteFiles store5
                  (filter (\<lambda>file. file_folderId file = Some 1) (map_values (files store5))))
           = filter (\<lambda>(k, file). file_folderId file \<noteq> Some 1) (files store5)
         \<and> deleteSubfolders n
             (deleteFiles store5
                (filter (\<lambda>file. file_folderId file = Some 1) (map_values (files store5))))
             (filter (\<lambda>folder. folder_parentId folder = Some 1) (map_values (folders store5)))
             = Some s2
         \<and> map_get (folders s2) 1 = map_get (folders store5) 1
         \<and> deleteFolder (Suc n) store5 1
             = Some (map_has (folders store5) 1, s2\<lparr>folders := map_delete (folders s2) 1\<rparr>)
         \<and> map_delete (folders s2) 1
             = filter (\<lambda>(k, folder). \<not> liesIn store5 1 k) (folders store5)
         \<and> files s2
             = filter (\<lambda>(k, file). case file_folderId file of
                                      None \<Rightarrow> True
                                    | Some p \<Rightarrow> \<not> liesIn store5 1 p)
                 (files store5))"
proof -
  have edges: "parentEdges store5 = [(2, 1)]" by code_simp
  moreover have "acyclic ({} :: (int \<times> int) set)"
    by (simp add: acyclic_def)
  ultimately have h: "acyclic (set (parentEdges store5))"
    by simp
  have k: "idsAreKeys store5" by code_simp
  have l: "liesIn store5 1 2"
    by (simp add: liesIn_def edges r_into_rtrancl)
  show ?thesis
    using h k l deleteFolder_terminates_depth_first [OF h, of 1] by blast
qed

text \<open>
  C1. \<open>deleteFolder 1\<close> on the example store removes folders 1 and 2, file 1 and the
  share of file 1, but share 2, whose \<open>folderId\<close> is the deleted folder 2, is still
  in the share map afterwards: \<open>deleteFolder\<close> never looks at the shares of a folder.
\<close>

theorem deleteFolder_keeps_folder_share:
  "map_option
     (\<lambda>(b, s'). (b, map_keys (folders s'), map_keys (files s'),
                 map (\<lambda>sh. (share_id sh, share_fileId sh, share_folderId sh))
                   (map_values (shares s'))))
     (deleteFolder 2 store5 1)
   = Some (True, [], [], [(2, None, Some 2)])"
  by code_simp

subsection \<open>Recent files\<close>

lemma mset_insert_sorted: "mset (insert_sorted cmp x ys) = add_mset x (mset ys)"
  by (induction ys) simp_all

lemma mset_array_sort: "mset (array_sort cmp xs) = mset xs"
  by (induction xs) (simp_all add: array_sort_def mset_insert_sorted)

lemma set_insert_sorted: "set (insert_sorted cmp x ys) = insert x (set ys)"
  by (induction ys) auto

lemma sorted_insert_sorted:
  "sorted_wrt (\<lambda>a b. key b \<le> key a) ys
     \<Longrightarrow> sorted_wrt (\<lambda>a b. (key b :: int) \<le> key a) (insert_sorted (\<lambda>a b. key b - key a) x ys)"
  by (induction ys) (auto simp: set_insert_sorted)

lemma sorted_array_sort:
  "sorted_wrt (\<lambda>a b. (key b :: int) \<le> key a) (array_sort (\<lambda>a b. key b - key a) xs)"
  by (induction xs) (simp_all add: array_sort_def sorted_insert_sorted)

text \<open>
  C8, against the claim as written. On the UTC host a call on 9 March returns file 4,
  which was last opened eleven days after the call: the code has no upper bound.
  On the New York host the call of 20 March leaves out file 1, although it was
  opened less than 30 times 24 hours before the call: the bound is 30 days earlier
  on the local calendar, which is one hour later here.
\<close>

theorem getRecentFiles_not_the_last_30_days:
  "map (\<lambda>x. file_id (fwp_file x)) (getRecentFiles utc winterStore 1710000000000 1) = [4, 2, 1]
   \<and> map_option file_lastAccessedAt (map_get (files winterStore) 4) = Some (Some 1710940000000)
   \<and> (1710000000000 :: int) < 1710940000000
   \<and> map (\<lambda>x. file_id (fwp_file x)) (getRecentFiles newYork2024 winterStore 1710950400000 1)
       = [4, 2]
   \<and> map_option file_lastAccessedAt (map_get (files winterStore) 1) = Some (Some 1708360000000)
   \<and> map_option file_inTrash (map_get (files winterStore) 1) = Some None
   \<and> map_option file_userId (map_get (files winterStore) 1) = Some 1
   \<and> (1710950400000 :: int) - 30 * 24 * 60 * 60 * 1000 \<le> 1708360000000
   \<and> (1708360000000 :: int) \<le> 1710950400000"
  by code_simp

text \<open>
  C8, as the code has it. The files that \<open>getRecentFiles\<close> returns for user \<open>u\<close> are,
  with multiplicity, the stored files owned by \<open>u\<close> that are not in the trash and
  whose \<open>lastAccessedAt\<close> is set and not earlier than the time 30 days before the call
  on the host's local calendar, with no upper bound; they come in descending order
  of \<open>lastAccessedAt\<close>; each carries the download URL of its id. The bound is 30 times
  24 hours before the call when the host's offset at the earlier date is its
  offset at the call.
\<close>

theorem getRecentFiles_recent_sorted:
  "mset (map fwp_file (getRecentFiles LocalTZA s now u))
     = mset (filter (\<lambda>f. file_userId f = u
                         \<and> (\<exists>t. file_lastAccessedAt f = Some t
                                  \<and> now + LocalTZA now True - 30 * 86400000
                                      - LocalTZA (now + LocalTZA now True - 30 * 86400000) False
                                    \<le> t)
                         \<and> file_inTrash f \<noteq> Some True)
               (map_values (files s)))
   \<and> sorted_wrt (\<lambda>a b. getTime (file_lastAccessedAt (fwp_file b))
                         \<le> getTime (file_lastAccessedAt (fwp_file a)))
       (getRecentFiles LocalTZA s now u)
   \<and> (\<forall>x \<in> set (getRecentFiles LocalTZA s now u).
         url x = Some (''/api/files/'' @ number_toString (file_id (fwp_file x)) @ ''/download''))
   \<and> (LocalTZA (now + LocalTZA now True - 30 * 86400000) False = LocalTZA now True
        \<longrightarrow> thirtyDaysAgo LocalTZA now = now - 30 * 86400000)"
proof -
  let ?cmp = "\<lambda>a b. getTime (file_lastAccessedAt b) - getTime (file_lastAccessedAt a)"
  let ?sel = "filter (isRecent (thirtyDaysAgo LocalTZA now) u) (map_values (files s))"
  have pred: "isRecent (thirtyDaysAgo LocalTZA now) u
                = (\<lambda>f. file_userId f = u
                         \<and> (\<exists>t. file_lastAccessedAt f = Some t
                                  \<and> now + LocalTZA now True - 30 * 86400000
                                      - LocalTZA (now + LocalTZA now True - 30 * 86400000) False
                                    \<le> t)
                         \<and> file_inTrash f \<noteq> Some True)"
  proof
    fix f :: File
    have "truthy_bool (file_inTrash f) \<longleftrightarrow> file_inTrash f = Some True"
      by (cases "file_inTrash f") auto
    then show "isRecent (thirtyDaysAgo LocalTZA now) u f
                 = (file_userId f = u
                         \<and> (\<exists>t. file_lastAccessedAt f = Some t
                                  \<and> now + LocalTZA now True - 30 * 86400000
                                      - LocalTZA (now + LocalTZA now True - 30 * 86400000) False
                                    \<le> t)
                         \<and> file_inTrash f \<noteq> Some True)"
      by (simp add: isRecent_def thirtyDaysAgo_def msPerDay_def Let_def split: option.splits)
  qed
  have files: "map fwp_file (getRecentFiles LocalTZA s now u) = array_sort ?cmp ?sel"
    by (simp add: getRecentFiles_def withPath_def comp_def)
  have one: "mset (map fwp_file (getRecentFiles LocalTZA s now u)) = mset ?sel"
    unfolding files by (rule mset_array_sort)
  have "sorted_wrt (\<lambda>a b. getTime (file_lastAccessedAt b) \<le> getTime (file_lastAccessedAt a))
          (array_sort ?cmp ?sel)"
    by (rule sorted_array_sort)
  then have two: "sorted_wrt (\<lambda>a b. getTime (file_lastAccessedAt (fwp_file b))
                         \<le> getTime (file_lastAccessedAt (fwp_file a)))
       (getRecentFiles LocalTZA s now u)"
    unfolding files[symmetric] by (simp add: sorted_wrt_map)
  have three: "\<forall>x \<in> set (getRecentFiles LocalTZA s now u).
         url x = Some (''/api/files/'' @ number_toString (file_id (fwp_file x)) @ ''/download'')"
    by (auto simp: getRecentFiles_def withPath_def downloadUrl_def)
  have four: "thirtyDaysAgo LocalTZA now = now - 30 * 86400000"
    if "LocalTZA (now + LocalTZA now True - 30 * 86400000) False = LocalTZA now True"
    using that by (simp add: thirtyDaysAgo_def msPerDay_def Let_def)
  from one two three four show ?thesis
    unfolding pred by blast
qed

theorem getRecentFiles_recent_sorted_witness:
  "map (\<lambda>x. file_id (fwp_file x)) (getRecentFiles newYork2024 winterStore 1710950400000 1) = [4, 2]
   \<and> thirtyDaysAgo newYork2024 1710950400000 = 1708362000000
   \<and> mset (map fwp_file (getRecentFiles newYork2024 winterStore 1710950400000 1))
     = mset (filter (\<lambda>f. file_userId f = 1
                         \<and> (\<exists>t. file_lastAccessedAt f = Some t
                                  \<and> 1710950400000 + newYork2024 1710950400000 True - 30 * 86400000
                                      - newYork2024
                                          (1710950400000 + newYork2024 1710950400000 True
                                             - 30 * 86400000) False
                                    \<le> t)
                         \<and> file_inTrash f \<noteq> Some True)
               (map_values (files winterStore)))
   \<and> sorted_wrt (\<lambda>a b. getTime (file_lastAccessedAt (fwp_file b))
                         \<le> getTime (file_lastAccessedAt (fwp_file a)))
       (getRecentFiles newYork2024 winterStore 1710950400000 1)
   \<and> map url (getRecentFiles newYork2024 winterStore 1710950400000 1)
       = map (\<lambda>x. Some (''/api/files/'' @ number_toString (file_id (fwp_file x)) @ ''/download''))
           (getRecentFiles newYork2024 winterStore 1710950400000 1)
   \<and> utc (1710950400000 + utc 1710950400000 True - 30 * 86400000) False
       = utc 1710950400000 True
   \<and> thirtyDaysAgo utc 1710950400000 = 1710950400000 - 30 * 86400000"
proof -
  have ids: "map (\<lambda>x. file_id (fwp_file x))
               (getRecentFiles newYork2024 winterStore 1710950400000 1) = [4, 2]"
    by code_simp
  have cut: "thirtyDaysAgo newYork2024 1710950400000 = 1708362000000"
    by code_simp
  have same: "utc (1710950400000 + utc 1710950400000 True - 30 * 86400000) False
                = utc 1710950400000 True"
    by (simp add: utc_def)
  show ?thesis
    using ids cut same
      getRecentFiles_recent_sorted [of newYork2024 winterStore 1710950400000 1]
      getRecentFiles_recent_sorted [of utc winterStore 1710950400000 1]
    unfolding map_eq_conv by blast
qed

subsection \<open>Partial updates\<close>

text \<open>
  C4, against the claim as written. \<open>updateFolder\<close> takes no clock. Folder 1 of the example store has no \<open>modifiedAt\<close>;
  after an update with the empty patch the returned and the stored folder still
  have none, so the update did not stamp it.
\<close>

theorem updateFolder_does_not_stamp:
  "map_option folder_modifiedAt (map_get (folders store5) 1) = Some None
   \<and> map_option folder_modifiedAt (fst (updateFolder store5 1 emptyFolderPatch)) = Some None
   \<and> map_option folder_modifiedAt
         (map_get (folders (snd (updateFolder store5 1 emptyFolderPatch))) 1) = Some None"
  by code_simp

text \<open>
  C4, as the code has it. For an existing file, \<open>updateFile\<close> returns and stores the
  old record with every field that the patch provides overwritten, every other
  field unchanged, and \<open>modifiedAt\<close> set to the time of the update. For an existing
  folder, \<open>updateFolder\<close> returns and stores the old record with exactly the provided
  fields overwritten; \<open>modifiedAt\<close> changes only when the patch provides it.
\<close>

theorem update_overwrites_given_fields:
  "(map_get (files s) i = Some file \<longrightarrow>
      fst (updateFile s now i d) =
        Some \<lparr> file_id = (case pfi_id d of None \<Rightarrow> file_id file | Some v \<Rightarrow> v),
               file_name = (case pfi_name d of None \<Rightarrow> file_name file | Some v \<Rightarrow> v),
               file_type = (case pfi_type d of None \<Rightarrow> file_type file | Some v \<Rightarrow> v),
               file_size = (case pfi_size d of None \<Rightarrow> file_size file | Some v \<Rightarrow> v),
               file_userId = (case pfi_userId d of None \<Rightarrow> file_userId file | Some v \<Rightarrow> v),
               file_folderId = (case pfi_folderId d of None \<Rightarrow> file_folderId file | Some v \<Rightarrow> v),
               file_path = (case pfi_path d of None \<Rightarrow> file_path file | Some v \<Rightarrow> v),
               file_starred = (case pfi_starred d of None \<Rightarrow> file_starred file | Some v \<Rightarrow> v),
               file_isShared = (case pfi_isShared d of None \<Rightarrow> file_isShared file | Some v \<Rightarrow> v),
               file_inTrash = (case pfi_inTrash d of None \<Rightarrow> file_inTrash file | Some v \<Rightarrow> v),
               file_deletedAt = (case pfi_deletedAt d of None \<Rightarrow> file_deletedAt file | Some v \<Rightarrow> v),
               file_lastAccessedAt =
                 (case pfi_lastAccessedAt d of None \<Rightarrow> file_lastAccessedAt file | Some v \<Rightarrow> v),
               file_createdAt = (case pfi_createdAt d of None \<Rightarrow> file_createdAt file | Some v \<Rightarrow> v),
               file_modifiedAt = Some now \<rparr>
      \<and> map_get (files (snd (updateFile s now i d))) i = fst (updateFile s now i d))
   \<and> (map_get (folders s) i = Some folder \<longrightarrow>
      fst (updateFolder s i e) =
        Some \<lparr> folder_id = (case pfo_id e of None \<Rightarrow> folder_id folder | Some v \<Rightarrow> v),
               folder_name = (case pfo_name e of None \<Rightarrow> folder_name folder | Some v \<Rightarrow> v),
               folder_userId = (case pfo_userId e of None \<Rightarrow> folder_userId folder | Some v \<Rightarrow> v),
               folder_parentId =
                 (case pfo_parentId e of None \<Rightarrow> folder_parentId folder | Some v \<Rightarrow> v),
               folder_inTrash = (case pfo_inTrash e of None \<Rightarrow> folder_inTrash folder | Some v \<Rightarrow> v),
               folder_deletedAt =
                 (case pfo_deletedAt e of None \<Rightarrow> folder_deletedAt folder | Some v \<Rightarrow> v),
               folder_starred = (case pfo_starred e of None \<Rightarrow> folder_starred folder | Some v \<Rightarrow> v),
               folder_isShared =
                 (case pfo_isShared e of None \<Rightarrow> folder_isShared folder | Some v \<Rightarrow> v),
               folder_createdAt =
                 (case pfo_createdAt e of None \<Rightarrow> folder_createdAt folder | Some v \<Rightarrow> v),
               folder_modifiedAt =
                 (case pfo_modifiedAt e of None \<Rightarrow> folder_modifiedAt folder | Some v \<Rightarrow> v) \<rparr>
      \<and> map_get (folders (snd (updateFolder s i e))) i = fst (updateFolder s i e))"
proof -
  have sp: "spread old x = (case x of None \<Rightarrow> old | Some v \<Rightarrow> v)" for old :: 'a and x
    by (cases x) simp_all
  have file_part: "fst (updateFile s now i d) = Some ((spread_file file d)\<lparr>file_modifiedAt := Some now\<rparr>)
      \<and> map_get (files (snd (updateFile s now i d))) i = fst (updateFile s now i d)"
    if "map_get (files s) i = Some file"
    using that by (simp add: updateFile_def Let_def map_get_map_set_same)
  have folder_part: "fst (updateFolder s i e) = Some (spread_folder folder e)
      \<and> map_get (folders (snd (updateFolder s i e))) i = fst (updateFolder s i e)"
    if "map_get (folders s) i = Some folder"
    using that by (simp add: updateFolder_def Let_def map_get_map_set_same)
  show ?thesis
    using file_part folder_part
    by (simp add: spread_file_def spread_folder_def sp)
qed

theorem update_overwrites_given_fields_witness:
  "map_get (files store5) 1 = Some storedFile
   \<and> map_get (folders store5) 1 = Some storedFolder
   \<and> fst (updateFile store5 2000 1 renameFile)
       = Some (storedFile\<lparr>file_name := ''b.pdf'', file_modifiedAt := Some 2000\<rparr>)
   \<and> map_get (files (snd (updateFile store5 2000 1 renameFile))) 1
       = Some (storedFile\<lparr>file_name := ''b.pdf'', file_modifiedAt := Some 2000\<rparr>)
   \<and> fst (updateFolder store5 1 renameFolder) = Some (storedFolder\<lparr>folder_name := ''Papers''\<rparr>)
   \<and> map_get (folders (snd (updateFolder store5 1 renameFolder))) 1
       = Some (storedFolder\<lparr>folder_name := ''Papers''\<rparr>)"
proof -
  have fi: "map_get (files store5) 1 = Some storedFile" by code_simp
  have fo: "map_get (folders store5) 1 = Some storedFolder" by code_simp
  show ?thesis
    using fi fo
      update_overwrites_given_fields
        [of store5 1 storedFile 2000 renameFile storedFolder renameFolder]
    by (simp add: renameFile_def renameFolder_def emptyFilePatch_def emptyFolderPatch_def
          storedFile_def storedFolder_def)
qed

subsection \<open>Folder names within one location\<close>







subsection \<open>Targets of a share\<close>

lemma shares_updateUserStorageUsed [simp]:
  "shares (snd (updateUserStorageUsed s u d)) = shares s"
  by (simp add: updateUserStorageUsed_def Let_def split: option.splits)

lemma set_deleteShares: "set (deleteShares m shs) \<subseteq> set m"
proof (induction shs arbitrary: m)
  case Nil
  then show ?case by simp
next
  case (Cons sh shs)
  have "set (deleteShares (map_delete m (share_id sh)) shs) \<subseteq> set (map_delete m (share_id sh))"
    by (rule Cons.IH)
  also have "\<dots> \<subseteq> set m" by (rule set_map_delete)
  finally show ?case by simp
qed

lemma shares_deleteFile: "set (shares (snd (deleteFile s i))) \<subseteq> set (shares s)"
  by (simp add: deleteFile_def Let_def set_deleteShares split: option.splits)

lemma shares_deleteFiles: "set (shares (deleteFiles s fs)) \<subseteq> set (shares s)"
proof (induction fs arbitrary: s)
  case Nil
  then show ?case by simp
next
  case (Cons f fs)
  have "set (shares (deleteFiles (snd (deleteFile s (file_id f))) fs))
          \<subseteq> set (shares (snd (deleteFile s (file_id f))))"
    by (rule Cons.IH)
  also have "\<dots> \<subseteq> set (shares s)" by (rule shares_deleteFile)
  finally show ?case by simp
qed

lemma deleteFolder_shares_subset:
  "deleteFolder n s i = Some (b, s') \<Longrightarrow> set (shares s') \<subseteq> set (shares s)"
  "deleteSubfolders n s fs = Some s' \<Longrightarrow> set (shares s') \<subseteq> set (shares s)"
proof (induction n s i and n s fs arbitrary: b s' and s' rule: deleteFolder_deleteSubfolders.induct)
  case (1 s i)
  then show ?case by simp
next
  case (2 n s i)
  define s1 where "s1 = deleteFiles s (filter (\<lambda>file. file_folderId file = Some i) (map_values (files s)))"
  define subs where "subs = filter (\<lambda>folder. folder_parentId folder = Some i) (map_values (folders s1))"
  from "2.prems" obtain s2 where sub: "deleteSubfolders n s1 subs = Some s2"
    and s': "s' = s2\<lparr>folders := map_delete (folders s2) i\<rparr>"
    by (simp add: Let_def s1_def subs_def split: option.splits)
  have "set (shares s2) \<subseteq> set (shares s1)"
    using "2.IH" sub unfolding s1_def subs_def by blast
  moreover have "set (shares s1) \<subseteq> set (shares s)"
    unfolding s1_def by (rule shares_deleteFiles)
  moreover have "shares s' = shares s2"
    by (simp add: s')
  ultimately show ?case by simp
next
  case (3 n s)
  then show ?case by simp
next
  case (4 n s subfolder rest)
  from "4.prems" obtain b s1 where first: "deleteFolder n s (folder_id subfolder) = Some (b, s1)"
    and others: "deleteSubfolders n s1 rest = Some s'"
    by (simp split: option.splits prod.splits)
  have "set (shares s1) \<subseteq> set (shares s)"
    using "4.IH"(1) first by blast
  moreover have "set (shares s') \<subseteq> set (shares s1)"
    using "4.IH"(2) first others by blast
  ultimately show ?case by simp
qed

lemma or_null_eq_None: "(or_null x = None) = (\<not> truthy_number x)"
  by (cases x) (simp_all add: or_null_def)

lemma post_api_shares_rejects:
  "truthy_number (rq_fileId rq) = truthy_number (rq_folderId rq) \<Longrightarrow>
     post_api_shares s now token auth rq =
       (case auth of None \<Rightarrow> ((401, Message ''Unauthorized''), s) | Some u \<Rightarrow> (badRequest, s))"
  by (auto simp: post_api_shares_def badRequest_def Let_def split: option.splits)

lemma post_api_shares_store:
  "snd (post_api_shares s now token auth rq) = s
   \<or> (\<exists>ins. snd (post_api_shares s now token auth rq) = snd (createShare s now token ins)
            \<and> ish_fileId ins = or_null (rq_fileId rq)
            \<and> ish_folderId ins = or_null (rq_folderId rq))"
proof (cases auth)
  case None
  then show ?thesis by (simp add: post_api_shares_def)
next
  case (Some u)
  let ?ins = "\<lparr> ish_fileId = or_null (rq_fileId rq),
                ish_folderId = or_null (rq_folderId rq),
                ish_userId = u,
                ish_accessType = string_or (rq_accessType rq) ''public'',
                ish_allowDownload = (case rq_allowDownload rq of None \<Rightarrow> Some True | Some b \<Rightarrow> Some b),
                ish_expiryDate = or_null (rq_expiryDate rq) \<rparr>"
  have "snd (post_api_shares s now token auth rq) = s
        \<or> snd (post_api_shares s now token auth rq) = snd (createShare s now token ?ins)"
    unfolding Some by (simp add: post_api_shares_def Let_def split_beta)
  then show ?thesis
    by (metis (no_types, lifting) insertShare.select_convs(1,2))
qed

lemma post_api_shares_shares:
  assumes ok: "\<forall>sh \<in> snd ` set (shares s). oneTarget sh"
  shows "\<forall>sh \<in> snd ` set (shares (snd (post_api_shares s now token auth rq))). oneTarget sh"
proof (cases "truthy_number (rq_fileId rq) = truthy_number (rq_folderId rq)")
  case True
  then show ?thesis
    using ok by (simp add: post_api_shares_rejects[OF True] split: option.splits)
next
  case False
  from post_api_shares_store[of s now token auth rq]
  show ?thesis
  proof
    assume "snd (post_api_shares s now token auth rq) = s"
    with ok show ?thesis by simp
  next
    assume "\<exists>ins. snd (post_api_shares s now token auth rq) = snd (createShare s now token ins)
            \<and> ish_fileId ins = or_null (rq_fileId rq)
            \<and> ish_folderId ins = or_null (rq_folderId rq)"
    then obtain ins where s1: "snd (post_api_shares s now token auth rq) = snd (createShare s now token ins)"
      and ins: "ish_fileId ins = or_null (rq_fileId rq)" "ish_folderId ins = or_null (rq_folderId rq)"
      by blast
    have new: "oneTarget (fst (createShare s now token ins))"
      using False by (simp add: createShare_def Let_def oneTarget_def ins or_null_eq_None)
    have "set (shares (snd (createShare s now token ins)))
            \<subseteq> insert (currentShareId s, fst (createShare s now token ins)) (set (shares s))"
      by (simp add: createShare_def Let_def set_map_set)
    with ok new show ?thesis
      unfolding s1 by fastforce
  qed
qed

lemma exec_keeps_oneTarget:
  assumes "exec s c = Some s'" and ok: "\<forall>sh \<in> snd ` set (shares s). oneTarget sh"
  shows "\<forall>sh \<in> snd ` set (shares s'). oneTarget sh"
proof (cases c)
  case (CreateUser now u)
  with assms show ?thesis by (auto simp: createUser_def Let_def)
next
  case (UpdateUser i d)
  with assms show ?thesis by (auto simp: updateUser_def Let_def split: option.splits)
next
  case (CreateFolder now f)
  with assms show ?thesis by (auto simp: createFolder_def Let_def)
next
  case (UpdateFolder i d)
  with assms show ?thesis by (auto simp: updateFolder_def Let_def split: option.splits)
next
  case (DeleteFolder n i)
  with assms(1) obtain b where "deleteFolder n s i = Some (b, s')" by auto
  then have "set (shares s') \<subseteq> set (shares s)" by (rule deleteFolder_shares_subset(1))
  with ok show ?thesis by blast
next
  case (CreateFile now f)
  with assms show ?thesis by (auto simp: createFile_def Let_def split: option.splits)
next
  case (UpdateFile now i d)
  with assms(1) have "shares s' = shares s"
    by (auto simp: updateFile_def Let_def split: option.splits)
  with ok show ?thesis by simp
next
  case (DeleteFile i)
  with assms(1) have "set (shares s') \<subseteq> set (shares s)"
    using shares_deleteFile[of s i] by auto
  with ok show ?thesis by blast
next
  case (PostShare now token auth rq)
  with assms(1) have "s' = snd (post_api_shares s now token auth rq)" by simp
  then show ?thesis using post_api_shares_shares[OF ok] by simp
next
  case (DeleteShare i)
  with assms(1) have "set (shares s') \<subseteq> set (shares s)"
    using set_map_delete[of "shares s" i] by (auto simp: deleteShare_def)
  with ok show ?thesis by blast
qed

lemma run_keeps_oneTarget:
  "run s cs = Some s' \<Longrightarrow> \<forall>sh \<in> snd ` set (shares s). oneTarget sh
     \<Longrightarrow> \<forall>sh \<in> snd ` set (shares s'). oneTarget sh"
proof (induction cs arbitrary: s)
  case Nil
  then show ?case by simp
next
  case (Cons c cs)
  from Cons.prems(1) obtain s1 where step: "exec s c = Some s1" and rest: "run s1 cs = Some s'"
    by (auto split: option.splits)
  from exec_keeps_oneTarget[OF step Cons.prems(2)] Cons.IH[OF rest] show ?case by blast
qed

text \<open>
  C6. A request to \<^verbatim>\<open>POST /api/shares\<close> in which \<^verbatim>\<open>fileId\<close> and \<^verbatim>\<open>folderId\<close> are both
  given or both missing leaves the store as it was, and a logged-in user gets 400.
  Hence in every store that a list of operations builds from a fresh store, shares
  being created through that handler, each share has exactly one of \<open>fileId\<close> and
  \<open>folderId\<close> set.
\<close>

theorem share_has_exactly_one_target:
  "(truthy_number (rq_fileId rq) = truthy_number (rq_folderId rq) \<longrightarrow>
      snd (post_api_shares s now token auth rq) = s
      \<and> (auth \<noteq> None \<longrightarrow> fst (post_api_shares s now token auth rq) = badRequest))
   \<and> (run (MemStorage start) cmds = Some s' \<longrightarrow> list_all oneTarget (map_values (shares s')))"
proof (intro conjI impI)
  assume same: "truthy_number (rq_fileId rq) = truthy_number (rq_folderId rq)"
  show "snd (post_api_shares s now token auth rq) = s"
    by (simp add: post_api_shares_rejects[OF same] split: option.splits)
  show "fst (post_api_shares s now token auth rq) = badRequest" if "auth \<noteq> None"
    using that by (auto simp: post_api_shares_rejects[OF same])
next
  assume "run (MemStorage start) cmds = Some s'"
  moreover have "\<forall>sh \<in> snd ` set (shares (MemStorage start)). oneTarget sh"
    by (simp add: MemStorage_def)
  ultimately have "\<forall>sh \<in> snd ` set (shares s'). oneTarget sh"
    by (rule run_keeps_oneTarget)
  then show "list_all oneTarget (map_values (shares s'))"
    by (simp add: list_all_iff map_values_def)
qed

theorem share_has_exactly_one_target_witness:
  "truthy_number (rq_fileId bothTargets) = truthy_number (rq_folderId bothTargets)
   \<and> Some 1 \<noteq> (None :: int option)
   \<and> post_api_shares store3 1004 ''0123456789abcdef0123456789abcdef'' (Some 1) bothTargets
       = (badRequest, store3)
   \<and> map_option (\<lambda>s'. map_keys (shares s')) (run (MemStorage 1000) session) = Some [2]
   \<and> list_all oneTarget (map_values (shares (the (run (MemStorage 1000) session))))"
proof -
  have both: "truthy_number (rq_fileId bothTargets) = truthy_number (rq_folderId bothTargets)"
    by code_simp
  have ran: "run (MemStorage 1000) session = Some (the (run (MemStorage 1000) session))"
    by code_simp
  have keys: "map_option (\<lambda>s'. map_keys (shares s')) (run (MemStorage 1000) session) = Some [2]"
    by code_simp
  from share_has_exactly_one_target
         [of bothTargets store3 1004 "''0123456789abcdef0123456789abcdef''" "Some 1" 1000 session
             "the (run (MemStorage 1000) session)"]
       both ran keys
  show ?thesis
    by (simp add: prod_eq_iff)
qed

subsection \<open>Storage accounting\<close>

lemma ownedSizes_owned: "ownedSizes s u = sum_list (map (owned u) (map_values (files s)))"
proof -
  have "sum_list (map file_size (filter (\<lambda>file. file_userId file = u) xs))
          = sum_list (map (owned u) xs)" for xs :: "File list"
    by (induction xs) (simp_all add: owned_def)
  then show ?thesis by (simp add: ownedSizes_def)
qed

lemma users_after_updateUserStorageUsed:
  "map_get (users (snd (updateUserStorageUsed s v d))) u =
     (if v = u then map_option (\<lambda>x. x\<lparr>user_storageUsed := max 0 (user_storageUsed x + d)\<rparr>)
                     (map_get (users s) u)
      else map_get (users s) u)"
  by (auto simp: updateUserStorageUsed_def Let_def map_get_map_set max_def split: option.splits)

lemma createFile_files:
  "files (snd (createFile s now f)) =
     map_set (files s) (currentFileId s) (fst (createFile s now f))"
  "currentFileId (snd (createFile s now f)) = currentFileId s + 1"
  "file_size (fst (createFile s now f)) = ifi_size f"
  "file_userId (fst (createFile s now f)) = ifi_userId f"
  by (simp_all add: createFile_def Let_def split: option.splits)

lemma createFile_users:
  "map_get (users s) (ifi_userId f) = Some usr \<Longrightarrow>
     map_get (users (snd (createFile s now f))) (ifi_userId f)
       = Some (usr\<lparr>user_storageUsed := user_storageUsed usr + ifi_size f\<rparr>)"
  by (simp add: createFile_def Let_def map_get_map_set)

lemma createFile_accounted:
  assumes acc: "accounted s u" and own: "ifi_userId f = u" and size: "0 \<le> ifi_size f"
  shows "accounted (snd (createFile s now f)) u"
    and "storageUsedOf (snd (createFile s now f)) u = Some (ownedSizes s u + ifi_size f)"
proof -
  let ?s' = "snd (createFile s now f)"
  let ?new = "fst (createFile s now f)"
  from acc have wf: "distinct (map_keys (files s))"
      and below: "\<forall>k \<in> set (map_keys (files s)). k < currentFileId s"
      and nonneg: "\<forall>file \<in> set (map_values (files s)). file_userId file = u \<longrightarrow> 0 \<le> file_size file"
      and used: "storageUsedOf s u = Some (ownedSizes s u)"
    by (simp_all add: accounted_def filesWellFormed_def sizesNonNegative_def list_all_iff)
  from below have fresh: "currentFileId s \<notin> set (map_keys (files s))" by auto
  have files': "files ?s' = files s @ [(currentFileId s, ?new)]"
    by (simp add: createFile_files(1) map_set_fresh[OF fresh])
  have sum': "ownedSizes ?s' u = ownedSizes s u + ifi_size f"
    by (simp add: ownedSizes_owned files' map_values_def owned_def createFile_files(3,4) own)
  from used obtain usr where usr: "map_get (users s) u = Some usr"
      and usrUsed: "user_storageUsed usr = ownedSizes s u"
    by (auto simp: storageUsedOf_def)
  have used': "storageUsedOf ?s' u = Some (ownedSizes s u + ifi_size f)"
    using createFile_users[of s f usr now] usr usrUsed own
    by (simp add: storageUsedOf_def)
  then show "storageUsedOf ?s' u = Some (ownedSizes s u + ifi_size f)" .
  have "filesWellFormed ?s'"
    using wf below fresh
    by (auto simp: filesWellFormed_def files' map_keys_def createFile_files(2) list_all_iff)
  moreover have "sizesNonNegative ?s' u"
    using nonneg size
    by (auto simp: sizesNonNegative_def files' map_values_def list_all_iff createFile_files(3))
  ultimately show "accounted ?s' u"
    using used' sum' by (simp add: accounted_def)
qed

lemma deleteFile_users:
  "map_get (users (snd (deleteFile s i))) u =
     (case map_get (files s) i of
        None \<Rightarrow> map_get (users s) u
      | Some file \<Rightarrow>
          if file_userId file = u
          then map_option (\<lambda>x. x\<lparr>user_storageUsed := max 0 (user_storageUsed x - file_size file)\<rparr>)
                 (map_get (users s) u)
          else map_get (users s) u)"
  using users_after_updateUserStorageUsed[of s _ _ u]
  by (simp add: deleteFile_def Let_def split: option.splits)

lemma deleteFile_accounted:
  assumes acc: "accounted s u"
  shows "accounted (snd (deleteFile s i)) u"
    and "map_get (files s) i = Some file \<Longrightarrow> file_userId file = u \<Longrightarrow>
           storageUsedOf (snd (deleteFile s i)) u = Some (ownedSizes s u - file_size file)"
proof -
  let ?s' = "snd (deleteFile s i)"
  from acc have wf: "distinct (map_keys (files s))"
      and below: "\<forall>k \<in> set (map_keys (files s)). k < currentFileId s"
      and nonneg: "\<forall>file \<in> set (map_values (files s)). file_userId file = u \<longrightarrow> 0 \<le> file_size file"
      and used: "storageUsedOf s u = Some (ownedSizes s u)"
    by (simp_all add: accounted_def filesWellFormed_def sizesNonNegative_def list_all_iff)
  have sub: "set (files ?s') \<subseteq> set (files s)"
    by (simp add: deleteFile_files set_map_delete)
  have wf': "filesWellFormed ?s'"
    using wf below sub
    by (auto simp: filesWellFormed_def deleteFile_files map_keys_def map_delete_def
          distinct_delete list_all_iff)
  have nonneg': "\<forall>file \<in> set (map_values (files ?s')). file_userId file = u \<longrightarrow> 0 \<le> file_size file"
    using nonneg sub by (auto simp: map_values_def)
  have rest: "0 \<le> ownedSizes ?s' u"
    unfolding ownedSizes_owned using nonneg'
    by (intro sum_list_nonneg) (auto simp: owned_def)
  have step: "storageUsedOf ?s' u = Some (ownedSizes ?s' u)
              \<and> (\<forall>file. map_get (files s) i = Some file \<and> file_userId file = u
                    \<longrightarrow> ownedSizes ?s' u = ownedSizes s u - file_size file)"
  proof (cases "map_get (files s) i")
    case None
    then show ?thesis
      using used by (simp add: storageUsedOf_def deleteFile_users ownedSizes_def deleteFile_files
            map_delete_absent)
  next
    case (Some fl)
    have sum': "ownedSizes ?s' u = ownedSizes s u - owned u fl"
      unfolding ownedSizes_owned deleteFile_files by (rule sum_map_delete[OF wf Some])
    show ?thesis
    proof (cases "file_userId fl = u")
      case True
      with sum' have eq: "ownedSizes ?s' u = ownedSizes s u - file_size fl"
        by (simp add: owned_def)
      with rest have "max 0 (ownedSizes s u - file_size fl) = ownedSizes ?s' u" by simp
      with used Some True eq show ?thesis
        by (auto simp: storageUsedOf_def deleteFile_users)
    next
      case False
      with sum' used Some show ?thesis
        by (auto simp: storageUsedOf_def deleteFile_users owned_def)
    qed
  qed
  with wf' nonneg' show "accounted ?s' u"
    by (simp add: accounted_def sizesNonNegative_def list_all_iff)
  show "storageUsedOf ?s' u = Some (ownedSizes s u - file_size file)"
    if "map_get (files s) i = Some file" "file_userId file = u"
    using step that by simp
qed

lemma run_accounted:
  "accounted s u \<Longrightarrow> list_all (fileOpFor u) cmds \<Longrightarrow> \<exists>s'. run s cmds = Some s' \<and> accounted s' u"
proof (induction cmds arbitrary: s)
  case Nil
  then show ?case by simp
next
  case (Cons c cmds)
  from Cons.prems(2) have c: "fileOpFor u c" and rest: "list_all (fileOpFor u) cmds"
    by simp_all
  from c Cons.prems(1) obtain s1 where step: "exec s c = Some s1" and acc: "accounted s1 u"
    by (cases c) (auto intro: createFile_accounted(1) deleteFile_accounted(1))
  from Cons.IH[OF acc rest] step show ?case by simp
qed

text \<open>
  C2. Let the user's \<open>storageUsed\<close> equal the sum of the sizes of the user's files, no
  size being negative. After any list of \<open>createFile\<close> operations for the user with
  sizes that are not negative and \<open>deleteFile\<close> operations, \<open>storageUsed\<close> again equals the
  sum of the sizes of the user's files. A \<open>createFile\<close> raises \<open>storageUsed\<close> by exactly
  the size of the file, and a \<open>deleteFile\<close> of a stored file of the user lowers it by
  exactly that file's size.
\<close>

theorem storageUsed_is_sum_of_sizes:
  assumes "filesWellFormed s"
    and "sizesNonNegative s u"
    and "storageUsedOf s u = Some (ownedSizes s u)"
    and "list_all (fileOpFor u) cmds"
  shows "(\<exists>s'. run s cmds = Some s' \<and> storageUsedOf s' u = Some (ownedSizes s' u)
              \<and> filesWellFormed s' \<and> sizesNonNegative s' u)
       \<and> (ifi_userId f = u \<and> 0 \<le> ifi_size f \<longrightarrow>
            storageUsedOf (snd (createFile s now f)) u
              = map_option (\<lambda>used. used + ifi_size f) (storageUsedOf s u))
       \<and> (map_get (files s) i = Some old \<and> file_userId old = u \<longrightarrow>
            storageUsedOf (snd (deleteFile s i)) u
              = map_option (\<lambda>used. used - file_size old) (storageUsedOf s u))"
proof -
  have acc: "accounted s u"
    using assms(1-3) by (simp add: accounted_def)
  from run_accounted[OF acc assms(4)]
  have "\<exists>s'. run s cmds = Some s' \<and> storageUsedOf s' u = Some (ownedSizes s' u)
              \<and> filesWellFormed s' \<and> sizesNonNegative s' u"
    by (auto simp: accounted_def)
  moreover have "storageUsedOf (snd (createFile s now f)) u
              = map_option (\<lambda>used. used + ifi_size f) (storageUsedOf s u)"
    if "ifi_userId f = u \<and> 0 \<le> ifi_size f"
    using createFile_accounted(2)[OF acc, of f now] that assms(3) by simp
  moreover have "storageUsedOf (snd (deleteFile s i)) u
              = map_option (\<lambda>used. used - file_size old) (storageUsedOf s u)"
    if "map_get (files s) i = Some old \<and> file_userId old = u"
    using deleteFile_accounted(2)[OF acc, of i old] that assms(3) by simp
  ultimately show ?thesis by blast
qed

theorem storageUsed_is_sum_of_sizes_witness:
  "filesWellFormed store3 \<and> sizesNonNegative store3 1
   \<and> storageUsedOf store3 1 = Some (ownedSizes store3 1)
   \<and> list_all (fileOpFor 1) fileOps
   \<and> ifi_userId textFile = 1 \<and> 0 \<le> ifi_size textFile
   \<and> map_get (files store3) 1 = Some storedFile \<and> file_userId storedFile = 1
   \<and> (\<exists>s'. run store3 fileOps = Some s' \<and> storageUsedOf s' 1 = Some (ownedSizes s' 1))
   \<and> storageUsedOf store3 1 = Some 1000
   \<and> storageUsedOf (snd (createFile store3 2000 textFile)) 1 = Some 1500
   \<and> storageUsedOf (snd (deleteFile store3 1)) 1 = Some 0"
proof -
  have a: "filesWellFormed store3" by code_simp
  have b: "sizesNonNegative store3 1" by code_simp
  have c: "storageUsedOf store3 1 = Some (ownedSizes store3 1)" by code_simp
  have d: "list_all (fileOpFor 1) fileOps" by code_simp
  have e: "ifi_userId textFile = 1 \<and> 0 \<le> ifi_size textFile" by code_simp
  have f: "map_get (files store3) 1 = Some storedFile \<and> file_userId storedFile = 1" by code_simp
  have g: "storageUsedOf store3 1 = Some 1000" by code_simp
  have h: "ifi_size textFile = 500" "file_size storedFile = 1000" by code_simp+
  from storageUsed_is_sum_of_sizes [OF a b c d, of textFile 2000 1 storedFile] a b c d e f g h
  show ?thesis
    by auto
qed

end
